theory Spec2Isabelle
  imports Main "HOL-Library.Sublist"
begin

section \<open>Python values, strings and files\<close>

text \<open>
  The configuration functions of \<^verbatim>\<open>hadoop_g5k/util.py\<close> work on byte strings: a file is
  the string of its bytes, a line is what \<^verbatim>\<open>readline\<close> returns (the bytes up to and
  including the next newline, or the rest of the file, or the empty string at the end of
  the file).
\<close>

abbreviation NL :: char where "NL \<equiv> CHR 0x0A"
abbreviation TAB :: char where "TAB \<equiv> CHR 0x09"

text \<open>The exceptions the modelled code raises. \<open>OutsideModel\<close> is not a Python exception:
  it marks the inputs on which a library call (the replacement template of \<^verbatim>\<open>re.sub\<close>,
  the path expression of \<^verbatim>\<open>findall\<close>, the XML parser) is not modelled.\<close>

datatype error = TypeError | ValueError | ParseError | OutsideModel

text \<open>The values that reach the \<^verbatim>\<open>value\<close> parameters and come out of the readers.\<close>

datatype pyval = PNone | PStr string | PInt int

fun truthy :: "pyval \<Rightarrow> bool" where
  "truthy PNone = False"
| "truthy (PStr s) = (s \<noteq> [])"
| "truthy (PInt i) = (i \<noteq> 0)"

fun digits :: "nat \<Rightarrow> string" where
  "digits n = (if n < 10 then [''0123456789'' ! n]
               else digits (n div 10) @ [''0123456789'' ! (n mod 10)])"

declare digits.simps [simp del]

text \<open>\<^verbatim>\<open>str(value)\<close>.\<close>

fun py_str :: "pyval \<Rightarrow> string" where
  "py_str PNone = ''None''"
| "py_str (PStr s) = s"
| "py_str (PInt i) = (if i < 0 then CHR ''-'' # digits (nat (- i)) else digits (nat i))"

text \<open>\<^verbatim>\<open>in_file.readline()\<close>: the line read and the rest of the file.\<close>

fun readline :: "string \<Rightarrow> string \<times> string" where
  "readline [] = ([], [])"
| "readline (c # cs) = (if c = NL then ([c], cs) else (case readline cs of (l, r) \<Rightarrow> (c # l, r)))"

lemma readline_append: "fst (readline s) @ snd (readline s) = s"
  by (induction s) (auto split: prod.splits)

lemma readline_nonempty: "s \<noteq> [] \<Longrightarrow> fst (readline s) \<noteq> []"
  by (cases s) (auto split: prod.splits)

lemma readline_shorter: "s \<noteq> [] \<Longrightarrow> length (snd (readline s)) < length s"
proof -
  assume "s \<noteq> []"
  have "length (fst (readline s)) + length (snd (readline s)) = length s"
    using readline_append [of s] by (metis length_append)
  moreover have "0 < length (fst (readline s))"
    using readline_nonempty [OF \<open>s \<noteq> []\<close>] by simp
  ultimately show ?thesis by linarith
qed

text \<open>\<^verbatim>\<open>for line in in_file\<close>: the lines of a file, in order.\<close>

function file_lines :: "string \<Rightarrow> string list" where
  "file_lines s = (if s = [] then [] else fst (readline s) # file_lines (snd (readline s)))"
  by pat_completeness auto
termination
  by (relation "measure length") (auto simp: readline_shorter)

declare file_lines.simps [simp del]

text \<open>The loop that ends a rewrite:
  \<^verbatim>\<open>line = in_file.readline(); while line != "": out_file.write(line); line = in_file.readline()\<close>,
  entered with the line already read.\<close>

function copy_rest :: "string \<Rightarrow> string \<Rightarrow> string \<Rightarrow> string" where
  "copy_rest line inp out =
     (if line \<noteq> [] then copy_rest (fst (readline inp)) (snd (readline inp)) (out @ line) else out)"
  by pat_completeness auto
termination
proof (relation "measure (\<lambda>(line, inp, out). 2 * length inp + (if line = [] then 0 else 1))")
  show "wf (measure (\<lambda>(line, inp, out). 2 * length inp + (if line = [] then 0 else 1)))"
    by simp
next
  fix line inp out :: string
  assume "line \<noteq> []"
  show "((fst (readline inp), snd (readline inp), out @ line), (line, inp, out))
      \<in> measure (\<lambda>(line, inp, out). 2 * length inp + (if line = [] then 0 else 1))"
  proof (cases "inp = []")
    case True
    with \<open>line \<noteq> []\<close> show ?thesis by simp
  next
    case False
    from readline_shorter [OF False] \<open>line \<noteq> []\<close> show ?thesis by simp
  qed
qed

declare copy_rest.simps [simp del]

text \<open>The loop that copies lines until one satisfies \<open>stop\<close>:
  \<^verbatim>\<open>while not stop(line): out_file.write(line); line = in_file.readline()\<close>.
  At the end of the file \<^verbatim>\<open>readline\<close> returns the empty string again and again, so the
  loop need not end: not returning is the value \<open>None\<close>.\<close>

partial_function (option) copy_until ::
  "(string \<Rightarrow> bool) \<Rightarrow> string \<Rightarrow> string \<Rightarrow> string \<Rightarrow> (string \<times> string \<times> string) option" where
  "copy_until stop line inp out =
     (if stop line then Some (line, inp, out)
      else copy_until stop (fst (readline inp)) (snd (readline inp)) (out @ line))"

declare copy_until.simps [code]

section \<open>The flat property store\<close>

text \<open>The whitespace of byte strings (\<^verbatim>\<open>string.whitespace\<close>): space, tab, newline, carriage
  return, vertical tab and form feed.\<close>

definition is_space :: "char \<Rightarrow> bool" where
  "is_space c = (c = CHR '' '' \<or> c = TAB \<or> c = NL \<or> c = CHR 0x0D \<or> c = CHR 0x0B \<or> c = CHR 0x0C)"

text \<open>\<^verbatim>\<open>line.split()\<close>: the maximal runs of bytes that are not whitespace.\<close>

fun split_acc :: "string \<Rightarrow> string \<Rightarrow> string list" where
  "split_acc cur [] = (if cur = [] then [] else [cur])"
| "split_acc cur (c # cs) =
     (if is_space c then (if cur = [] then split_acc [] cs else cur # split_acc [] cs)
      else split_acc (cur @ [c]) cs)"

definition split :: "string \<Rightarrow> string list" where
  "split s = split_acc [] s"

text \<open>\<^verbatim>\<open>__parse_props_line\<close>: the pair \<^verbatim>\<open>(None, None)\<close> for a comment or a line with no
  token, the list of the tokens otherwise, however many they are.\<close>

definition parse_props_line :: "string \<Rightarrow> pyval list" where
  "parse_props_line line =
     (if prefix ''#'' line then [PNone, PNone]
      else (let parts = split line in if parts \<noteq> [] then map PStr parts else [PNone, PNone]))"

text \<open>\<^verbatim>\<open>(pname, pvalue) = ...\<close>: unpacking raises ValueError unless there are two items.\<close>

fun unpack2 :: "pyval list \<Rightarrow> error + (pyval \<times> pyval)" where
  "unpack2 [a, b] = Inr (a, b)"
| "unpack2 _ = Inl ValueError"

fun read_param_loop :: "string list \<Rightarrow> string \<Rightarrow> pyval \<Rightarrow> error + pyval" where
  "read_param_loop [] name dflt = Inr dflt"
| "read_param_loop (line # rest) name dflt =
     (case unpack2 (parse_props_line line) of
        Inl e \<Rightarrow> Inl e
      | Inr (pname, pvalue) \<Rightarrow>
          if name \<noteq> [] \<and> pname = PStr name then Inr pvalue
          else read_param_loop rest name dflt)"

definition read_param_in_props_file :: "string \<Rightarrow> string \<Rightarrow> pyval \<Rightarrow> error + pyval" where
  "read_param_in_props_file f name dflt = read_param_loop (file_lines f) name dflt"

fun read_in_loop ::
  "string list \<Rightarrow> string list option \<Rightarrow> (string \<rightharpoonup> pyval) \<Rightarrow> error + (string \<rightharpoonup> pyval)" where
  "read_in_loop [] param_names params = Inr params"
| "read_in_loop (line # rest) param_names params =
     (case unpack2 (parse_props_line line) of
        Inl e \<Rightarrow> Inl e
      | Inr (pname, pvalue) \<Rightarrow>
          read_in_loop rest param_names
            (case pname of
               PStr k \<Rightarrow>
                 if k \<noteq> [] \<and> (case param_names of None \<Rightarrow> True | Some ns \<Rightarrow> k \<in> set ns)
                 then params(k \<mapsto> pvalue) else params
             | _ \<Rightarrow> params))"

definition read_in_props_file :: "string \<Rightarrow> string list option \<Rightarrow> error + (string \<rightharpoonup> pyval)" where
  "read_in_props_file f param_names = read_in_loop (file_lines f) param_names Map.empty"

text \<open>The search loop of \<^verbatim>\<open>write_in_props_file\<close>:
  \<^verbatim>\<open>while not pname or pname != name: out_file.write(line); line = in_file.readline();
  (pname, pvalue) = __parse_props_line(line)\<close>, entered with the first line read.\<close>

partial_function (option) find_prop ::
  "string \<Rightarrow> string \<Rightarrow> string \<Rightarrow> string \<Rightarrow> (error + (string \<times> string)) option" where
  "find_prop name line inp out =
     (case unpack2 (parse_props_line line) of
        Inl e \<Rightarrow> Some (Inl e)
      | Inr pv \<Rightarrow>
          if \<not> truthy (fst pv) \<or> fst pv \<noteq> PStr name
          then find_prop name (fst (readline inp)) (snd (readline inp)) (out @ line)
          else Some (Inr (inp, out)))"

declare find_prop.simps [code]

text \<open>\<^verbatim>\<open>write_in_props_file\<close>: the result is the boolean returned and the content of the
  file afterwards. An exception leaves the file as it was.\<close>

definition write_in_props_file ::
  "string \<Rightarrow> string \<Rightarrow> pyval \<Rightarrow> bool \<Rightarrow> bool \<Rightarrow> (error + (bool \<times> string)) option" where
  "write_in_props_file f name val create_if_absent override =
     (case read_param_in_props_file f name PNone of
        Inl e \<Rightarrow> Some (Inl e)
      | Inr current_value \<Rightarrow>
          if truthy current_value then
            if override then
              (case find_prop name (fst (readline f)) (snd (readline f)) [] of
                 None \<Rightarrow> None
               | Some (Inl e) \<Rightarrow> Some (Inl e)
               | Some (Inr (inp, out)) \<Rightarrow>
                   Some (Inr (True,
                     copy_rest (fst (readline inp)) (snd (readline inp))
                       (out @ name @ [TAB] @ py_str val @ [NL]))))
            else Some (Inr (False, f))
          else
            if create_if_absent then Some (Inr (True, f @ name @ [TAB] @ py_str val @ [NL]))
            else Some (Inr (False, f)))"

section \<open>The XML property store\<close>

text \<open>An element of the tree that \<^verbatim>\<open>ET.parse(f).getroot()\<close> returns: its tag, its text (the
  character data before its first child, \<^verbatim>\<open>None\<close> when there is none), its children and its
  tail (the character data after its end tag). Attributes play no part in the path the
  readers use and are left out.\<close>

datatype element =
  Element (el_tag: string) (el_text: "string option") (el_children: "element list")
    (el_tail: "string option")

definition opt_str :: "string option \<Rightarrow> string" where
  "opt_str t = (case t of None \<Rightarrow> [] | Some s \<Rightarrow> s)"

text \<open>\<^verbatim>\<open>"".join(e.itertext())\<close>: the text of an element and of its descendants, with the
  tails of the descendants, in document order.\<close>

fun itertext :: "element \<Rightarrow> string" where
  "itertext (Element t tx kids ta) =
     opt_str tx @ concat (map (\<lambda>k. itertext k @ opt_str (el_tail k)) kids)"

text \<open>\<^verbatim>\<open>root.findall("./property/[name='%s']/value" % name)\<close>: of every child of the root with
  tag \<^verbatim>\<open>property\<close> that has a child with tag \<^verbatim>\<open>name\<close> whose text is the name, the children
  with tag \<^verbatim>\<open>value\<close>, in document order. The name is pasted into the path between single
  quotes: a name with a single quote in it makes another path expression, which is not
  modelled.\<close>

definition findall_values :: "element \<Rightarrow> string \<Rightarrow> error + element list" where
  "findall_values root name =
     (if CHR 0x27 \<in> set name then Inl OutsideModel
      else Inr (concat (map (\<lambda>p. filter (\<lambda>e. el_tag e = ''value'') (el_children p))
        (filter (\<lambda>p. el_tag p = ''property'' \<and>
                   (\<exists>n \<in> set (el_children p). el_tag n = ''name'' \<and> itertext n = name))
           (el_children root)))))"

text \<open>\<^verbatim>\<open>res[i].text\<close> as a Python value.\<close>

definition py_text :: "element \<Rightarrow> pyval" where
  "py_text e = (case el_text e of None \<Rightarrow> PNone | Some s \<Rightarrow> PStr s)"

text \<open>\<^verbatim>\<open>create_xml_file\<close>: the content it writes.\<close>

definition create_xml_file :: string where
  "create_xml_file = ''<configuration>'' @ [NL] @ ''</configuration>''"

text \<open>\<^verbatim>\<open>read_param_in_xml_file\<close>. The parser \<^verbatim>\<open>ET.parse\<close> belongs to the Python library and is
  the parameter \<open>parse\<close>: from the content of the file to the root element, or an error.\<close>

definition read_param_in_xml_file ::
  "(string \<Rightarrow> error + element) \<Rightarrow> string \<Rightarrow> string \<Rightarrow> pyval \<Rightarrow> error + pyval" where
  "read_param_in_xml_file parse f name dflt =
     (case parse f of
        Inl e \<Rightarrow> Inl e
      | Inr root \<Rightarrow>
          (case findall_values root name of
             Inl e \<Rightarrow> Inl e
           | Inr res \<Rightarrow> if res \<noteq> [] then Inr (py_text (hd res)) else Inr dflt))"

fun read_in_xml_loop ::
  "element \<Rightarrow> string list \<Rightarrow> (string \<rightharpoonup> pyval) \<Rightarrow> error + (string \<rightharpoonup> pyval)" where
  "read_in_xml_loop root [] params = Inr params"
| "read_in_xml_loop root (name # rest) params =
     (case findall_values root name of
        Inl e \<Rightarrow> Inl e
      | Inr res \<Rightarrow>
          read_in_xml_loop root rest
            (if res \<noteq> [] then params(name \<mapsto> py_text (last res)) else params))"

definition read_in_xml_file ::
  "(string \<Rightarrow> error + element) \<Rightarrow> string \<Rightarrow> string list \<Rightarrow> error + (string \<rightharpoonup> pyval)" where
  "read_in_xml_file parse f param_names =
     (if param_names = [] then Inr Map.empty
      else (case parse f of
              Inl e \<Rightarrow> Inl e
            | Inr root \<Rightarrow> read_in_xml_loop root param_names Map.empty))"

text \<open>The match of \<^verbatim>\<open>(.*)<value>[^<]*</value>(.*)\<close> in a string without a newline: the first
  group is greedy, so it is the longest start of the string after which \<^verbatim>\<open><value>\<close>, bytes
  other than \<^verbatim>\<open><\<close> and \<^verbatim>\<open></value>\<close> follow; the second group is the rest. The result is the
  two groups.\<close>

fun value_match :: "string \<Rightarrow> (string \<times> string) option" where
  "value_match [] = None"
| "value_match (c # cs) =
     (case value_match cs of
        Some (g1, g2) \<Rightarrow> Some (c # g1, g2)
      | None \<Rightarrow>
          if prefix ''<value>'' (c # cs)
          then (let r = dropWhile (\<lambda>x. x \<noteq> CHR ''<'') (drop 7 (c # cs))
                in if prefix ''</value>'' r then Some ([], drop 8 r) else None)
          else None)"

text \<open>\<^verbatim>\<open>re.sub(r'(.*)<value>[^<]*</value>(.*)', r'\g<1><value>' + v + r'</value>\g<2>', line)\<close>
  for a line as \<^verbatim>\<open>readline\<close> returns it (no newline but at its end; the dot does not match
  a newline, so the newline stays where it is) and a string \<open>v\<close> without a backslash (the
  module reads a backslash in the replacement as an escape). Where nothing matches, the
  line is returned as it is.\<close>

definition re_sub_value :: "string \<Rightarrow> string \<Rightarrow> error + string" where
  "re_sub_value line v =
     (if CHR 0x5C \<in> set v \<or> NL \<in> set (butlast line) then Inl OutsideModel
      else (case value_match (takeWhile (\<lambda>x. x \<noteq> NL) line) of
              None \<Rightarrow> Inr line
            | Some (g1, g2) \<Rightarrow>
                Inr (g1 @ ''<value>'' @ v @ ''</value>'' @ g2 @ dropWhile (\<lambda>x. x \<noteq> NL) line)))"

text \<open>\<^verbatim>\<open>__replace_line\<close>: the value is concatenated to strings before \<^verbatim>\<open>re.sub\<close> is called,
  which raises TypeError unless the value is a string.\<close>

definition replace_line :: "string \<Rightarrow> pyval \<Rightarrow> error + string" where
  "replace_line line val =
     (case val of PStr v \<Rightarrow> re_sub_value line v | _ \<Rightarrow> Inl TypeError)"

text \<open>\<^verbatim>\<open>replace_in_xml_file\<close>: the result is the boolean returned and the content of the
  file afterwards (the temporary file is copied over it on the two paths that reach the
  end of the function). An exception leaves the file as it was. A search loop that
  never ends is the value \<open>None\<close>.\<close>

definition replace_in_xml_file ::
  "(string \<Rightarrow> error + element) \<Rightarrow> string \<Rightarrow> string \<Rightarrow> pyval \<Rightarrow> bool \<Rightarrow> bool
     \<Rightarrow> (error + (bool \<times> string)) option" where
  "replace_in_xml_file parse f name val create_if_absent replace_if_present =
     (case read_param_in_xml_file parse f name PNone of
        Inl e \<Rightarrow> Some (Inl e)
      | Inr current_value \<Rightarrow>
          if truthy current_value then
            if replace_if_present then
              (case copy_until (sublist (''<name>'' @ name @ ''</name>''))
                      (fst (readline f)) (snd (readline f)) [] of
                 None \<Rightarrow> None
               | Some (line, inp, out) \<Rightarrow>
                   if sublist ''<value>'' line then
                     (case replace_line line val of
                        Inl e \<Rightarrow> Some (Inl e)
                      | Inr new \<Rightarrow>
                          Some (Inr (True,
                            copy_rest (fst (readline inp)) (snd (readline inp)) (out @ new))))
                   else
                     (case replace_line (fst (readline inp)) val of
                        Inl e \<Rightarrow> Some (Inl e)
                      | Inr new \<Rightarrow>
                          Some (Inr (True,
                            copy_rest (fst (readline (snd (readline inp))))
                              (snd (readline (snd (readline inp)))) (out @ line @ new)))))
            else Some (Inr (False, f))
          else
            if create_if_absent then
              (case copy_until (sublist ''</configuration>'')
                      (fst (readline f)) (snd (readline f)) [] of
                 None \<Rightarrow> None
               | Some (line, inp, out) \<Rightarrow>
                   Some (Inr (True,
                     out @ ''  <property><name>'' @ name @ ''</name>'' @
                       ''<value>'' @ py_str val @ ''</value></property>'' @ [NL] @ line)))
            else Some (Inr (False, f)))"

section \<open>The XML parser on plain documents\<close>

text \<open>Modelled library: \<^verbatim>\<open>ET.parse\<close> is not code of this repository. \<open>xml_parse\<close> is the parser
  on the documents made of start tags and end tags without attributes and of character
  data of printable ASCII, tabs and newlines without \<^verbatim>\<open><\<close>, \<^verbatim>\<open>>\<close> and \<^verbatim>\<open>&\<close>; it
  instantiates the parameter \<open>parse\<close> where a concrete parser is needed. It reads the
  document byte by byte. Anything else in a document (an attribute, an entity, a comment,
  a declaration, an empty-element tag) is reported as \<open>OutsideModel\<close>.\<close>

type_synonym frame = "string \<times> string option \<times> element list"

datatype pmode = InText string | InTag string

datatype pstate = PS "frame list" "element option" pmode | PErr error

definition xml_space :: "char \<Rightarrow> bool" where
  "xml_space c = (c = CHR '' '' \<or> c = TAB \<or> c = NL)"

definition plain :: "char \<Rightarrow> bool" where
  "plain c = (c = TAB \<or> c = NL \<or>
     ((32::nat) \<le> of_char c \<and> of_char c \<le> (126::nat) \<and>
      c \<noteq> CHR ''<'' \<and> c \<noteq> CHR ''>'' \<and> c \<noteq> CHR ''&''))"

definition name_start :: "char \<Rightarrow> bool" where
  "name_start c = (c \<in> set ''abcdefghijklmnopqrstuvwxyzABCDEFGHIJKLMNOPQRSTUVWXYZ_'')"

definition name_char :: "char \<Rightarrow> bool" where
  "name_char c = (name_start c \<or> c \<in> set ''0123456789-.'')"

definition valid_name :: "string \<Rightarrow> bool" where
  "valid_name n = (n \<noteq> [] \<and> name_start (hd n) \<and> list_all name_char n)"

definition set_tail :: "element \<Rightarrow> string \<Rightarrow> element" where
  "set_tail e s = Element (el_tag e) (el_text e) (el_children e) (Some s)"

text \<open>Character data that ends at a tag: the text of the open element when it has no
  child yet, the tail of its last child otherwise; outside the root element only
  whitespace may stand.\<close>

fun flush :: "frame list \<Rightarrow> string \<Rightarrow> error + frame list" where
  "flush st [] = Inr st"
| "flush [] buf = (if list_all xml_space buf then Inr [] else Inl ParseError)"
| "flush ((tag, tx, kids) # rest) buf =
     (if kids = [] then Inr ((tag, Some buf, []) # rest)
      else Inr ((tag, tx, butlast kids @ [set_tail (last kids) buf]) # rest))"

text \<open>The end of a tag: an end tag closes the open element, which must have its name, and
  makes it a child of the element below it or the root; a start tag opens an element,
  which is an error after the root element has been closed.\<close>

fun end_of_tag :: "frame list \<Rightarrow> element option \<Rightarrow> string \<Rightarrow> pstate" where
  "end_of_tag st dn (CHR ''/'' # nm) =
     (if \<not> valid_name nm then PErr OutsideModel
      else (case st of
              [] \<Rightarrow> PErr ParseError
            | (tag, tx, kids) # rest \<Rightarrow>
                if tag \<noteq> nm then PErr ParseError
                else (case rest of
                        [] \<Rightarrow> PS [] (Some (Element tag tx kids None)) (InText [])
                      | (ptag, ptx, pkids) # rest' \<Rightarrow>
                          PS ((ptag, ptx, pkids @ [Element tag tx kids None]) # rest') dn
                            (InText []))))"
| "end_of_tag st dn nm =
     (if \<not> valid_name nm then PErr OutsideModel
      else if st = [] \<and> dn \<noteq> None then PErr ParseError
      else PS ((nm, None, []) # st) dn (InText []))"

fun step :: "pstate \<Rightarrow> char \<Rightarrow> pstate" where
  "step (PErr e) c = PErr e"
| "step (PS st dn (InText buf)) c =
     (if c = CHR ''<'' then (case flush st buf of Inl e \<Rightarrow> PErr e | Inr st' \<Rightarrow> PS st' dn (InTag []))
      else if plain c then PS st dn (InText (buf @ [c]))
      else PErr OutsideModel)"
| "step (PS st dn (InTag buf)) c =
     (if c = CHR ''>'' then end_of_tag st dn buf
      else if name_char c \<or> c = CHR ''/'' then PS st dn (InTag (buf @ [c]))
      else PErr OutsideModel)"

fun finish :: "pstate \<Rightarrow> error + element" where
  "finish (PErr e) = Inl e"
| "finish (PS [] (Some root) (InText buf)) =
     (if list_all xml_space buf then Inr root else Inl ParseError)"
| "finish (PS st dn m) = Inl ParseError"

definition xml_parse :: "string \<Rightarrow> error + element" where
  "xml_parse s = finish (foldl step (PS [] None (InText [])) s)"

section \<open>Vocabulary of the statements\<close>

text \<open>The key of a line of a flat file: what the loops bind to \<^verbatim>\<open>pname\<close>, the first item
  of what \<^verbatim>\<open>__parse_props_line\<close> returns (its result is never empty).\<close>

definition line_key :: "string \<Rightarrow> pyval" where
  "line_key l = hd (parse_props_line l)"

text \<open>A line that the loops unpack without an error: a comment, a line without a token,
  or a line of two tokens.\<close>

definition unpacks :: "string \<Rightarrow> bool" where
  "unpacks l = (length (parse_props_line l) = 2)"

text \<open>An entry for a name in a parsed document: a \<^verbatim>\<open>property\<close> element with a \<^verbatim>\<open>name\<close> child
  whose text is the name; its values are its \<^verbatim>\<open>value\<close> children.\<close>

definition is_entry :: "string \<Rightarrow> element \<Rightarrow> bool" where
  "is_entry name p = (el_tag p = ''property'' \<and>
     (\<exists>n \<in> set (el_children p). el_tag n = ''name'' \<and> itertext n = name))"

definition entry_values :: "element \<Rightarrow> element list" where
  "entry_values p = filter (\<lambda>e. el_tag e = ''value'') (el_children p)"

text \<open>The line that the creating write of \<^verbatim>\<open>replace_in_xml_file\<close> inserts for a name and the
  string of a value, and the documents that \<^verbatim>\<open>create_xml_file\<close> followed by creating writes
  produces: the opening tag on a line, one such line for each entry, the closing tag.\<close>

definition render_entry :: "string \<times> string \<Rightarrow> string" where
  "render_entry e = ''  <property><name>'' @ fst e @ ''</name>'' @
     ''<value>'' @ snd e @ ''</value></property>'' @ [NL]"

definition render_doc :: "(string \<times> string) list \<Rightarrow> string" where
  "render_doc es = ''<configuration>'' @ [NL] @ concat (map render_entry es) @ ''</configuration>''"

text \<open>Text that the parser \<open>xml_parse\<close> reads as the text of an element: not empty, and of
  plain characters.\<close>

definition plain_text :: "string \<Rightarrow> bool" where
  "plain_text s = (s \<noteq> [] \<and> list_all plain s)"

text \<open>The element that \<open>xml_parse\<close> builds for an inserted line, before its tail is known.\<close>

definition entry_elem :: "string \<times> string \<Rightarrow> element" where
  "entry_elem e = Element ''property'' None
     [Element ''name'' (Some (fst e)) [] None, Element ''value'' (Some (snd e)) [] None] None"

text \<open>The open element of the parser after character data \<open>buf\<close> (not empty) has ended at
  a tag, and after an inserted line has been read.\<close>

definition after_text :: "frame \<Rightarrow> string \<Rightarrow> frame" where
  "after_text fr buf =
     (case fr of (tag, tx, kids) \<Rightarrow>
        if kids = [] then (tag, Some buf, [])
        else (tag, tx, butlast kids @ [set_tail (last kids) buf]))"

definition add_entry :: "frame \<Rightarrow> string \<times> string \<Rightarrow> frame" where
  "add_entry fr e =
     (case after_text fr (NL # ''  '') of (tag, tx, kids) \<Rightarrow> (tag, tx, kids @ [entry_elem e]))"

definition close_frame :: "frame \<Rightarrow> element" where
  "close_frame fr = (case fr of (tag, tx, kids) \<Rightarrow> Element tag tx kids None)"

text \<open>An element without its tail.\<close>

definition kid_core :: "element \<Rightarrow> element" where
  "kid_core e = Element (el_tag e) (el_text e) (el_children e) None"

text \<open>A string that \<^verbatim>\<open>split\<close> returns as one token: not empty and without whitespace.\<close>

definition token :: "string \<Rightarrow> bool" where
  "token s = (s \<noteq> [] \<and> list_all (\<lambda>c. \<not> is_space c) s)"

section \<open>Lines and the copying loops\<close>


lemma copy_rest_eq: "(line = [] \<Longrightarrow> inp = []) \<Longrightarrow> copy_rest line inp out = out @ line @ inp"
proof (induction line inp out rule: copy_rest.induct)
  case (1 line inp out)
  show ?case
  proof (cases "line = []")
    case True
    with "1.prems" show ?thesis by (simp add: copy_rest.simps)
  next
    case False
    have "fst (readline inp) = [] \<Longrightarrow> snd (readline inp) = []"
      using readline_nonempty [of inp] by (cases "inp = []") auto
    from "1.IH" [OF False this]
    have "copy_rest (fst (readline inp)) (snd (readline inp)) (out @ line)
            = (out @ line) @ fst (readline inp) @ snd (readline inp)" .
    with False show ?thesis
      by (subst copy_rest.simps) (simp add: readline_append)
  qed
qed

lemma copy_rest_readline: "copy_rest (fst (readline inp)) (snd (readline inp)) out = out @ inp"
proof -
  have "fst (readline inp) = [] \<Longrightarrow> snd (readline inp) = []"
    using readline_nonempty [of inp] by (cases "inp = []") auto
  from copy_rest_eq [OF this] show ?thesis by (simp add: readline_append)
qed

lemma file_lines_Nil [simp]: "file_lines [] = []"
  by (simp add: file_lines.simps)

lemma file_lines_Cons: "s \<noteq> [] \<Longrightarrow> file_lines s = fst (readline s) # file_lines (snd (readline s))"
  by (subst file_lines.simps) simp

lemma file_lines_eq_Nil [simp]: "file_lines s = [] \<longleftrightarrow> s = []"
  by (subst file_lines.simps) simp

lemma concat_file_lines [simp]: "concat (file_lines s) = s"
proof (induction s rule: file_lines.induct)
  case (1 s)
  show ?case
  proof (cases "s = []")
    case True then show ?thesis by simp
  next
    case False
    with "1.IH" show ?thesis by (simp add: file_lines_Cons readline_append)
  qed
qed

lemma file_lines_ConsD:
  assumes "file_lines s = l # ls"
  shows "s \<noteq> []" and "fst (readline s) = l" and "file_lines (snd (readline s)) = ls"
    and "snd (readline s) = concat ls"
proof -
  from assms show ne: "s \<noteq> []" by auto
  from assms file_lines_Cons [OF ne]
  show "fst (readline s) = l" and r: "file_lines (snd (readline s)) = ls"
    by auto
  from r show "snd (readline s) = concat ls"
    using concat_file_lines [of "snd (readline s)"] by simp
qed

lemma copy_until_lines:
  "file_lines f = pre @ l # post \<Longrightarrow> \<forall>p\<in>set pre. \<not> stop p \<Longrightarrow> stop l \<Longrightarrow>
   copy_until stop (fst (readline f)) (snd (readline f)) out = Some (l, concat post, out @ concat pre)"
proof (induction pre arbitrary: f out)
  case Nil
  then have fl: "file_lines f = l # post" by simp
  from file_lines_ConsD(2,4) [OF fl] Nil(3) show ?case
    by (subst copy_until.simps) simp
next
  case (Cons p ps)
  from Cons.prems(1) have fl: "file_lines f = p # (ps @ l # post)" by simp
  note d = file_lines_ConsD [OF fl]
  from Cons.prems have np: "\<not> stop p" and nps: "\<forall>q\<in>set ps. \<not> stop q" by auto
  have rec: "copy_until stop (fst (readline (snd (readline f)))) (snd (readline (snd (readline f)))) (out @ p)
          = Some (l, concat post, (out @ p) @ concat ps)"
    by (rule Cons.IH [OF d(3) nps Cons.prems(3)])
  have "copy_until stop (fst (readline f)) (snd (readline f)) out
      = copy_until stop (fst (readline (snd (readline f)))) (snd (readline (snd (readline f)))) (out @ p)"
    using d(2) np by (subst copy_until.simps) simp
  with rec show ?case by simp
qed

lemma copy_until_SomeD_aux:
  "copy_until stop line inp out = Some y \<Longrightarrow>
   \<not> stop [] \<longrightarrow> (\<exists>pre. line # file_lines inp = pre @ fst y # file_lines (fst (snd y)) \<and>
      (\<forall>p\<in>set pre. \<not> stop p) \<and> stop (fst y) \<and> snd (snd y) = out @ concat pre)"
proof (rule copy_until.raw_induct [where P = "\<lambda>stop line inp out y.
   \<not> stop [] \<longrightarrow> (\<exists>pre. line # file_lines inp = pre @ fst y # file_lines (fst (snd y)) \<and>
      (\<forall>p\<in>set pre. \<not> stop p) \<and> stop (fst y) \<and> snd (snd y) = out @ concat pre)"])
  show "copy_until stop line inp out = Some y \<Longrightarrow> copy_until stop line inp out = Some y" .
next
  fix cu :: "(string \<Rightarrow> bool) \<Rightarrow> string \<Rightarrow> string \<Rightarrow> string \<Rightarrow> (string \<times> string \<times> string) option"
  fix stop line inp out y
  assume IH: "\<And>stop line inp out y. cu stop line inp out = Some y \<Longrightarrow>
     \<not> stop [] \<longrightarrow> (\<exists>pre. line # file_lines inp = pre @ fst y # file_lines (fst (snd y)) \<and>
      (\<forall>p\<in>set pre. \<not> stop p) \<and> stop (fst y) \<and> snd (snd y) = out @ concat pre)"
  assume body: "(if stop line then Some (line, inp, out)
      else cu stop (fst (readline inp)) (snd (readline inp)) (out @ line)) = Some y"
  show "\<not> stop [] \<longrightarrow> (\<exists>pre. line # file_lines inp = pre @ fst y # file_lines (fst (snd y)) \<and>
      (\<forall>p\<in>set pre. \<not> stop p) \<and> stop (fst y) \<and> snd (snd y) = out @ concat pre)"
  proof
    assume ns: "\<not> stop []"
    show "\<exists>pre. line # file_lines inp = pre @ fst y # file_lines (fst (snd y)) \<and>
      (\<forall>p\<in>set pre. \<not> stop p) \<and> stop (fst y) \<and> snd (snd y) = out @ concat pre"
    proof (cases "stop line")
      case True
      with body have "y = (line, inp, out)" by simp
      with True show ?thesis by (intro exI [of _ "[]"]) simp
    next
      case False
      with body have rec: "cu stop (fst (readline inp)) (snd (readline inp)) (out @ line) = Some y"
        by simp
      from IH [OF rec] ns obtain pre where
        pre: "fst (readline inp) # file_lines (snd (readline inp)) = pre @ fst y # file_lines (fst (snd y))"
          "\<forall>p\<in>set pre. \<not> stop p" "stop (fst y)" "snd (snd y) = (out @ line) @ concat pre" by blast
      have "inp \<noteq> []"
      proof
        assume "inp = []"
        with pre(1) have "pre @ fst y # file_lines (fst (snd y)) = [[]]" by simp
        then have "pre = [] \<and> fst y = []" by (cases pre) auto
        with pre(3) ns show False by simp
      qed
      with pre(1) have "file_lines inp = pre @ fst y # file_lines (fst (snd y))"
        by (simp add: file_lines_Cons)
      with pre False show ?thesis
        by (intro exI [of _ "line # pre"]) simp
    qed
  qed
qed

lemma copy_until_SomeD:
  assumes "copy_until stop (fst (readline f)) (snd (readline f)) out = Some (l, inp', out')"
    and "\<not> stop []"
  shows "\<exists>pre. file_lines f = pre @ l # file_lines inp' \<and> (\<forall>p\<in>set pre. \<not> stop p) \<and> stop l
            \<and> out' = out @ concat pre"
proof -
  from copy_until_SomeD_aux [OF assms(1)] assms(2) obtain pre where
    pre: "fst (readline f) # file_lines (snd (readline f)) = pre @ l # file_lines inp'"
      "\<forall>p\<in>set pre. \<not> stop p" "stop l" "out' = out @ concat pre" by auto
  have "f \<noteq> []"
  proof
    assume "f = []"
    with pre(1) have "pre @ l # file_lines inp' = [[]]" by simp
    then have "pre = [] \<and> l = []" by (cases pre) auto
    with pre(3) assms(2) show False by simp
  qed
  with pre show ?thesis by (intro exI [of _ pre]) (simp add: file_lines_Cons)
qed

section \<open>The loops of the flat store\<close>



lemma unpack2_Inr: "unpack2 xs = Inr (a, b) \<longleftrightarrow> xs = [a, b]"
  by (cases xs rule: unpack2.cases) auto

lemma unpack2_unpacks: "unpacks l \<Longrightarrow> \<exists>a b. parse_props_line l = [a, b]"
  by (cases "parse_props_line l" rule: unpack2.cases) (auto simp: unpacks_def)

text \<open>A lookup that returns a true value has found it on a line: the lines before it
  unpack and have other keys.\<close>

lemma read_param_loop_found:
  assumes "read_param_loop ls name PNone = Inr cur" and "truthy cur"
  shows "\<exists>pre l post. ls = pre @ l # post \<and> (\<forall>p\<in>set pre. unpacks p \<and> line_key p \<noteq> PStr name) \<and>
           parse_props_line l = [PStr name, cur] \<and> name \<noteq> []"
  using assms
proof (induction ls)
  case Nil
  then show ?case by simp
next
  case (Cons x xs)
  from Cons.prems(1) obtain a b where ab: "unpack2 (parse_props_line x) = Inr (a, b)"
    by (auto split: sum.splits)
  then have px: "parse_props_line x = [a, b]" by (simp add: unpack2_Inr)
  show ?case
  proof (cases "name \<noteq> [] \<and> a = PStr name")
    case True
    with Cons.prems(1) ab have "b = cur" by simp
    with True px show ?thesis by (intro exI [of _ "[]"] exI [of _ x] exI [of _ xs]) simp
  next
    case False
    with Cons.prems(1) ab have "read_param_loop xs name PNone = Inr cur" by auto
    from Cons.IH [OF this Cons.prems(2)] obtain pre l post where
      IH: "xs = pre @ l # post" "\<forall>p\<in>set pre. unpacks p \<and> line_key p \<noteq> PStr name"
        "parse_props_line l = [PStr name, cur]" "name \<noteq> []" by blast
    from False IH(4) have "a \<noteq> PStr name" by simp
    with px have "unpacks x \<and> line_key x \<noteq> PStr name" by (simp add: unpacks_def line_key_def)
    with IH show ?thesis
      by (intro exI [of _ "x # pre"] exI [of _ l] exI [of _ post]) simp
  qed
qed

lemma read_param_loop_first:
  assumes "\<forall>p\<in>set pre. unpacks p \<and> line_key p \<noteq> PStr name"
  shows "read_param_loop (pre @ rest) name dflt = read_param_loop rest name dflt"
  using assms
proof (induction pre)
  case Nil
  then show ?case by simp
next
  case (Cons x xs)
  from Cons.prems have "unpacks x" by simp
  from unpack2_unpacks [OF this] obtain a b where px: "parse_props_line x = [a, b]" by blast
  with Cons.prems have "a \<noteq> PStr name" by (simp add: line_key_def)
  with px Cons show ?case by simp
qed

lemma find_prop_lines:
  "file_lines f = pre @ l # post \<Longrightarrow> \<forall>p\<in>set pre. unpacks p \<and> line_key p \<noteq> PStr name \<Longrightarrow>
   parse_props_line l = [PStr name, v] \<Longrightarrow> name \<noteq> [] \<Longrightarrow>
   find_prop name (fst (readline f)) (snd (readline f)) out = Some (Inr (concat post, out @ concat pre))"
proof (induction pre arbitrary: f out)
  case Nil
  then have fl: "file_lines f = l # post" by simp
  from file_lines_ConsD(2,4) [OF fl] Nil(3,4) show ?case
    by (subst find_prop.simps) simp
next
  case (Cons p ps)
  from Cons.prems(1) have fl: "file_lines f = p # (ps @ l # post)" by simp
  note d = file_lines_ConsD [OF fl]
  from Cons.prems(2) have up: "unpacks p" "line_key p \<noteq> PStr name"
    and nps: "\<forall>q\<in>set ps. unpacks q \<and> line_key q \<noteq> PStr name" by auto
  from unpack2_unpacks [OF up(1)] obtain a b where px0: "parse_props_line p = [a, b]" by blast
  with up(2) have px: "parse_props_line p = [a, b]" "a \<noteq> PStr name"
    by (simp_all add: line_key_def)
  have rec: "find_prop name (fst (readline (snd (readline f)))) (snd (readline (snd (readline f)))) (out @ p)
          = Some (Inr (concat post, (out @ p) @ concat ps))"
    by (rule Cons.IH [OF d(3) nps Cons.prems(3,4)])
  have "find_prop name (fst (readline f)) (snd (readline f)) out
      = find_prop name (fst (readline (snd (readline f)))) (snd (readline (snd (readline f)))) (out @ p)"
    using d(2) px by (subst find_prop.simps) simp
  with rec show ?case by simp
qed

text \<open>The replacing write of the flat store, when the lookup returns a true value.\<close>

lemma write_in_props_file_replace:
  assumes "read_param_in_props_file f name PNone = Inr cur" and "truthy cur"
  shows "\<exists>pre l post. file_lines f = pre @ l # post \<and>
           (\<forall>p\<in>set pre. unpacks p \<and> line_key p \<noteq> PStr name) \<and>
           parse_props_line l = [PStr name, cur] \<and>
           write_in_props_file f name val create_if_absent True =
             Some (Inr (True, concat pre @ name @ [TAB] @ py_str val @ [NL] @ concat post))"
proof -
  from read_param_loop_found [OF assms [unfolded read_param_in_props_file_def]]
  obtain pre l post where
    d: "file_lines f = pre @ l # post" "\<forall>p\<in>set pre. unpacks p \<and> line_key p \<noteq> PStr name"
      "parse_props_line l = [PStr name, cur]" "name \<noteq> []" by blast
  from find_prop_lines [OF d, of "[]"]
  have "find_prop name (fst (readline f)) (snd (readline f)) [] = Some (Inr (concat post, concat pre))"
    by simp
  with assms have "write_in_props_file f name val create_if_absent True =
             Some (Inr (True, concat pre @ name @ [TAB] @ py_str val @ [NL] @ concat post))"
    by (simp add: write_in_props_file_def copy_rest_readline)
  with d show ?thesis by blast
qed

section \<open>Evaluation on concrete files\<close>

lemmas flat_eval = write_in_props_file_def read_param_in_props_file_def file_lines.simps
  find_prop.simps parse_props_line_def split_def is_space_def copy_rest.simps digits.simps
  read_in_props_file_def line_key_def unpacks_def

lemmas xml_eval = replace_in_xml_file_def read_param_in_xml_file_def read_in_xml_file_def
  findall_values_def py_text_def opt_str_def replace_line_def re_sub_value_def
  xml_parse_def create_xml_file_def plain_def valid_name_def name_char_def name_start_def
  xml_space_def set_tail_def copy_until.simps copy_rest.simps file_lines.simps digits.simps
  sublist_code

section \<open>The store: properties of the readers and the writers\<close>

text \<open>C9. In a flat file in which the lookup finds the key (it returns a true value),
  \<^verbatim>\<open>write_in_props_file\<close> with \<^verbatim>\<open>override\<close> true returns true and the file becomes: the
  lines before the first line whose key is the name, unchanged; the name, one tab, the
  string of the value and a newline in place of that line, whatever separated its fields;
  the lines after it, unchanged.\<close>

theorem write_in_props_file_override:
  assumes "read_param_in_props_file f name PNone = Inr cur" and "truthy cur"
  shows "\<exists>pre l post. file_lines f = pre @ l # post \<and>
           (\<forall>p\<in>set pre. line_key p \<noteq> PStr name) \<and> line_key l = PStr name \<and>
           write_in_props_file f name val create_if_absent True =
             Some (Inr (True, concat pre @ name @ [TAB] @ py_str val @ [NL] @ concat post))"
proof -
  from write_in_props_file_replace [OF assms, of val create_if_absent]
  obtain pre l post where
    d: "file_lines f = pre @ l # post" "\<forall>p\<in>set pre. unpacks p \<and> line_key p \<noteq> PStr name"
      "parse_props_line l = [PStr name, cur]"
      "write_in_props_file f name val create_if_absent True =
         Some (Inr (True, concat pre @ name @ [TAB] @ py_str val @ [NL] @ concat post))"
    by blast
  from d(3) have "line_key l = PStr name" by (simp add: line_key_def)
  with d show ?thesis by blast
qed

theorem write_in_props_file_override_witness:
  "read_param_in_props_file (''a 1'' @ [NL] @ ''k  2'' @ [NL] @ ''c 3 4'' @ [NL]) ''k'' PNone
     = Inr (PStr ''2'') \<and> truthy (PStr ''2'') \<and>
   (\<exists>pre l post. file_lines (''a 1'' @ [NL] @ ''k  2'' @ [NL] @ ''c 3 4'' @ [NL]) = pre @ l # post \<and>
      (\<forall>p\<in>set pre. line_key p \<noteq> PStr ''k'') \<and> line_key l = PStr ''k'' \<and>
      write_in_props_file (''a 1'' @ [NL] @ ''k  2'' @ [NL] @ ''c 3 4'' @ [NL]) ''k'' (PInt 7) False True =
        Some (Inr (True, concat pre @ ''k'' @ [TAB] @ py_str (PInt 7) @ [NL] @ concat post))) \<and>
   write_in_props_file (''a 1'' @ [NL] @ ''k  2'' @ [NL] @ ''c 3 4'' @ [NL]) ''k'' (PInt 7) False True =
     Some (Inr (True, ''a 1'' @ [NL] @ ''k'' @ [TAB] @ ''7'' @ [NL] @ ''c 3 4'' @ [NL]))"
proof -
  have h: "read_param_in_props_file (''a 1'' @ [NL] @ ''k  2'' @ [NL] @ ''c 3 4'' @ [NL]) ''k'' PNone
     = Inr (PStr ''2'')"
    by (simp add: flat_eval)
  have t: "truthy (PStr ''2'')" by simp
  have e: "write_in_props_file (''a 1'' @ [NL] @ ''k  2'' @ [NL] @ ''c 3 4'' @ [NL]) ''k'' (PInt 7) False True =
     Some (Inr (True, ''a 1'' @ [NL] @ ''k'' @ [TAB] @ ''7'' @ [NL] @ ''c 3 4'' @ [NL]))"
    by (simp add: flat_eval)
  from write_in_props_file_override [OF h t, of "PInt 7" False] h t e show ?thesis by blast
qed

text \<open>C3. \<^verbatim>\<open>read_param_in_props_file\<close> does not skip a line of one token or of three
  tokens: unpacking its tokens into the pair \<^verbatim>\<open>(pname, pvalue)\<close> raises ValueError, whatever
  name is looked up.\<close>

theorem read_param_in_props_file_three_tokens:
  "read_param_in_props_file (''a b c'' @ [NL] @ ''k 1'' @ [NL]) ''k'' PNone = Inl ValueError \<and>
   read_param_in_props_file (''justone'' @ [NL] @ ''k 1'' @ [NL]) ''k'' PNone = Inl ValueError \<and>
   read_param_in_props_file (''# a b c'' @ [NL] @ [NL] @ ''k 1'' @ [NL]) ''k'' PNone = Inr (PStr ''1'')"
  by (simp add: flat_eval)

text \<open>C10. Both writers test the truth of the value looked up. In the XML store a key
  whose first matching \<^verbatim>\<open>value\<close> element has no text is looked up as \<^verbatim>\<open>None\<close> and is treated as
  absent: with \<^verbatim>\<open>create_if_absent\<close> false the write returns false and the file is unchanged
  even when \<^verbatim>\<open>replace_if_present\<close> is true, and with \<^verbatim>\<open>create_if_absent\<close> true a new property
  line is inserted before the first line containing \<^verbatim>\<open></configuration>\<close>, the lines before
  it and that line being copied as they are. In the flat store a lookup that returns a
  false value leads to no write, or to the appended line.\<close>

theorem falsy_value_is_absent:
  "(parse f = Inr root \<and> findall_values root name = Inr (v # vs) \<and> \<not> truthy (py_text v) \<longrightarrow>
      read_param_in_xml_file parse f name PNone = Inr (py_text v) \<and>
      replace_in_xml_file parse f name val False replace_if_present = Some (Inr (False, f)) \<and>
      (file_lines f = pre @ l # post \<and> (\<forall>p\<in>set pre. \<not> sublist ''</configuration>'' p) \<and>
         sublist ''</configuration>'' l \<longrightarrow>
       replace_in_xml_file parse f name val True replace_if_present =
         Some (Inr (True, concat pre @ ''  <property><name>'' @ name @ ''</name><value>'' @
           py_str val @ ''</value></property>'' @ [NL] @ l)))) \<and>
   (read_param_in_props_file g name PNone = Inr cur \<and> \<not> truthy cur \<longrightarrow>
      write_in_props_file g name val False override = Some (Inr (False, g)) \<and>
      write_in_props_file g name val True override =
        Some (Inr (True, g @ name @ [TAB] @ py_str val @ [NL])))"
proof (intro conjI impI)
  assume a: "parse f = Inr root \<and> findall_values root name = Inr (v # vs) \<and> \<not> truthy (py_text v)"
  then show r: "read_param_in_xml_file parse f name PNone = Inr (py_text v)"
    by (simp add: read_param_in_xml_file_def)
  from r a show "replace_in_xml_file parse f name val False replace_if_present = Some (Inr (False, f))"
    by (simp add: replace_in_xml_file_def)
  assume d: "file_lines f = pre @ l # post \<and> (\<forall>p\<in>set pre. \<not> sublist ''</configuration>'' p) \<and>
         sublist ''</configuration>'' l"
  then have "copy_until (sublist ''</configuration>'') (fst (readline f)) (snd (readline f)) []
         = Some (l, concat post, [] @ concat pre)"
    by (intro copy_until_lines) auto
  with r a show "replace_in_xml_file parse f name val True replace_if_present =
         Some (Inr (True, concat pre @ ''  <property><name>'' @ name @ ''</name><value>'' @
           py_str val @ ''</value></property>'' @ [NL] @ l))"
    by (simp add: replace_in_xml_file_def)
next
  assume "read_param_in_props_file g name PNone = Inr cur \<and> \<not> truthy cur"
  then show "write_in_props_file g name val False override = Some (Inr (False, g))"
    and "write_in_props_file g name val True override =
        Some (Inr (True, g @ name @ [TAB] @ py_str val @ [NL]))"
    by (simp_all add: write_in_props_file_def)
qed

theorem falsy_value_is_absent_witness:
  "xml_parse (''<configuration>'' @ [NL] @ ''  <property><name>x</name><value></value></property>'' @ [NL]
       @ ''</configuration>'')
     = Inr (Element ''configuration'' (Some (NL # ''  ''))
         [Element ''property'' None
            [Element ''name'' (Some ''x'') [] None, Element ''value'' None [] None] (Some [NL])]
         None) \<and>
   findall_values (Element ''configuration'' (Some (NL # ''  ''))
         [Element ''property'' None
            [Element ''name'' (Some ''x'') [] None, Element ''value'' None [] None] (Some [NL])]
         None) ''x'' = Inr [Element ''value'' None [] None] \<and>
   \<not> truthy (py_text (Element ''value'' None [] None)) \<and>
   read_param_in_xml_file xml_parse
     (''<configuration>'' @ [NL] @ ''  <property><name>x</name><value></value></property>'' @ [NL]
       @ ''</configuration>'') ''x'' PNone = Inr PNone \<and>
   replace_in_xml_file xml_parse
     (''<configuration>'' @ [NL] @ ''  <property><name>x</name><value></value></property>'' @ [NL]
       @ ''</configuration>'') ''x'' (PStr ''1'') False True
     = Some (Inr (False, ''<configuration>'' @ [NL]
         @ ''  <property><name>x</name><value></value></property>'' @ [NL] @ ''</configuration>'')) \<and>
   replace_in_xml_file xml_parse
     (''<configuration>'' @ [NL] @ ''  <property><name>x</name><value></value></property>'' @ [NL]
       @ ''</configuration>'') ''x'' (PStr ''1'') True True
     = Some (Inr (True, ''<configuration>'' @ [NL]
         @ ''  <property><name>x</name><value></value></property>'' @ [NL]
         @ ''  <property><name>x</name><value>1</value></property>'' @ [NL] @ ''</configuration>'')) \<and>
   read_param_in_props_file (''a 1'' @ [NL]) ''x'' PNone = Inr PNone \<and>
   write_in_props_file (''a 1'' @ [NL]) ''x'' (PStr ''1'') False True
     = Some (Inr (False, ''a 1'' @ [NL])) \<and>
   write_in_props_file (''a 1'' @ [NL]) ''x'' (PStr ''1'') True True
     = Some (Inr (True, ''a 1'' @ [NL] @ ''x'' @ [TAB] @ ''1'' @ [NL]))"
proof -
  let ?f = "''<configuration>'' @ [NL] @ ''  <property><name>x</name><value></value></property>'' @ [NL]
       @ ''</configuration>''"
  let ?v = "Element ''value'' None [] None"
  let ?root = "Element ''configuration'' (Some (NL # ''  ''))
         [Element ''property'' None [Element ''name'' (Some ''x'') [] None, ?v] (Some [NL])] None"
  let ?pre = "[''<configuration>'' @ [NL], ''  <property><name>x</name><value></value></property>'' @ [NL]]"
  have p: "xml_parse ?f = Inr ?root"
    by (simp add: xml_eval)
  have q: "findall_values ?root ''x'' = Inr [?v]"
    by (simp add: xml_eval)
  have t: "\<not> truthy (py_text ?v)"
    by (simp add: py_text_def)
  have fl: "file_lines ?f = ?pre @ ''</configuration>'' # []"
    by (simp add: file_lines.simps)
  have np: "\<forall>p\<in>set ?pre. \<not> sublist ''</configuration>'' p"
    by (simp add: sublist_code)
  have sl: "sublist ''</configuration>'' ''</configuration>''"
    by (simp add: sublist_code)
  have g: "read_param_in_props_file (''a 1'' @ [NL]) ''x'' PNone = Inr PNone"
    by (simp add: flat_eval)
  have tn: "\<not> truthy PNone" by simp
  from falsy_value_is_absent [of xml_parse ?f ?root "''x''" ?v "[]" "PStr ''1''" True ?pre
      "''</configuration>''" "[]" "''a 1'' @ [NL]" PNone True]
    p q t fl np sl g tn
  show ?thesis by (simp add: py_text_def)
qed

text \<open>C4. The replacing branch of \<^verbatim>\<open>replace_in_xml_file\<close> does not turn the value into a
  string: with the integer 2 for a key that is present, \<^verbatim>\<open>__replace_line\<close> concatenates it to
  a string and TypeError is raised, while the creating branch, which calls \<^verbatim>\<open>str\<close>, inserts
  the text \<^verbatim>\<open>2\<close>.\<close>

theorem replace_in_xml_file_int_value:
  "replace_in_xml_file xml_parse
     (''<configuration>'' @ [NL] @ ''  <property><name>x</name><value>1</value></property>'' @ [NL]
        @ ''</configuration>'') ''x'' (PInt 2) False True = Some (Inl TypeError) \<and>
   replace_in_xml_file xml_parse
     (''<configuration>'' @ [NL] @ ''  <property><name>x</name><value>1</value></property>'' @ [NL]
        @ ''</configuration>'') ''x'' (PStr ''2'') False True
     = Some (Inr (True, ''<configuration>'' @ [NL]
          @ ''  <property><name>x</name><value>2</value></property>'' @ [NL] @ ''</configuration>'')) \<and>
   replace_in_xml_file xml_parse
     (''<configuration>'' @ [NL] @ ''  <property><name>x</name><value>1</value></property>'' @ [NL]
        @ ''</configuration>'') ''y'' (PInt 2) True True
     = Some (Inr (True, ''<configuration>'' @ [NL]
          @ ''  <property><name>x</name><value>1</value></property>'' @ [NL]
          @ ''  <property><name>y</name><value>2</value></property>'' @ [NL] @ ''</configuration>''))"
  by (simp add: xml_eval)

section \<open>The readers\<close>

lemma findall_values_entries:
  "CHR 0x27 \<notin> set name \<Longrightarrow>
   findall_values root name = Inr (concat (map entry_values (filter (is_entry name) (el_children root))))"
  unfolding findall_values_def is_entry_def [abs_def] entry_values_def [abs_def] by simp








section \<open>The replacing write of the XML store\<close>

lemma second_line:
  "fst (readline inp) = (case file_lines inp of [] \<Rightarrow> [] | l # _ \<Rightarrow> l) \<and>
   snd (readline inp) = concat (tl (file_lines inp))"
proof (cases "inp = []")
  case True
  then show ?thesis by simp
next
  case False
  from file_lines_Cons [OF False] show ?thesis by simp
qed

text \<open>What a successful replacing write has done: the lines before the first line \<open>l\<close>
  that contains the name tag are copied; \<open>l\<close> is rewritten by \<^verbatim>\<open>__replace_line\<close> when it
  contains \<^verbatim>\<open><value>\<close>, and otherwise \<open>l\<close> is copied and the line after it is rewritten;
  the lines after are copied.\<close>

lemma replace_in_xml_file_replace:
  assumes "read_param_in_xml_file parse f name PNone = Inr cur" and "truthy cur"
    and "replace_in_xml_file parse f name val create_if_absent True = Some (Inr (b, f'))"
  shows "\<exists>pre l post new. file_lines f = pre @ l # post \<and>
           (\<forall>p\<in>set pre. \<not> sublist (''<name>'' @ name @ ''</name>'') p) \<and>
           sublist (''<name>'' @ name @ ''</name>'') l \<and> b \<and>
           (if sublist ''<value>'' l
            then replace_line l val = Inr new \<and> f' = concat pre @ new @ concat post
            else replace_line (case post of [] \<Rightarrow> [] | l2 # _ \<Rightarrow> l2) val = Inr new \<and>
                 f' = concat pre @ l @ new @ concat (tl post))"
proof -
  let ?stop = "sublist (''<name>'' @ name @ ''</name>'')"
  have ns: "\<not> ?stop []" by simp
  from assms obtain l inp out where
    cu: "copy_until ?stop (fst (readline f)) (snd (readline f)) [] = Some (l, inp, out)"
    by (auto simp: replace_in_xml_file_def split: option.splits)
  from copy_until_SomeD [OF cu ns] obtain pre where
    pre: "file_lines f = pre @ l # file_lines inp" "\<forall>p\<in>set pre. \<not> ?stop p" "?stop l"
      "out = concat pre" by auto
  show ?thesis
  proof (cases "sublist ''<value>'' l")
    case True
    with assms cu obtain new where
      new: "replace_line l val = Inr new" "b"
        "f' = copy_rest (fst (readline inp)) (snd (readline inp)) (out @ new)"
      by (auto simp: replace_in_xml_file_def split: sum.splits)
    from new(3) pre(4) have "f' = concat pre @ new @ concat (file_lines inp)"
      by (simp add: copy_rest_readline)
    with pre new True show ?thesis
      by (intro exI [of _ pre] exI [of _ l] exI [of _ "file_lines inp"] exI [of _ new]) simp
  next
    case False
    with assms cu obtain new where
      new: "replace_line (fst (readline inp)) val = Inr new" "b"
        "f' = copy_rest (fst (readline (snd (readline inp)))) (snd (readline (snd (readline inp))))
                (out @ l @ new)"
      by (auto simp: replace_in_xml_file_def split: sum.splits)
    note s = second_line [of inp]
    from new(3) pre(4) s have "f' = concat pre @ l @ new @ concat (tl (file_lines inp))"
      by (simp add: copy_rest_readline)
    moreover from new(1) s
    have "replace_line (case file_lines inp of [] \<Rightarrow> [] | l2 # _ \<Rightarrow> l2) val = Inr new"
      by simp
    ultimately show ?thesis using pre new(2) False
      by (intro exI [of _ pre] exI [of _ l] exI [of _ "file_lines inp"] exI [of _ new]) simp
  qed
qed

text \<open>C1, as it is stated, fails: the key \<^verbatim>\<open>x\<close> is present (its second entry has the value
  5), the first line that contains \<^verbatim>\<open><name>x</name>\<close> has no \<^verbatim>\<open><value>\<close>, and the write
  of 9 rewrites the line after it, which is the entry of the key \<^verbatim>\<open>y\<close>; the value of
  \<^verbatim>\<open>x\<close> stays 5.\<close>

theorem replace_in_xml_file_rewrites_other_entry:
  "read_param_in_xml_file xml_parse
     (''<configuration>'' @ [NL] @ ''<property><name>x</name></property>'' @ [NL]
        @ ''<property><name>y</name><value>7</value></property>'' @ [NL]
        @ ''<property><name>x</name><value>5</value></property>'' @ [NL] @ ''</configuration>'')
     ''x'' PNone = Inr (PStr ''5'') \<and>
   replace_in_xml_file xml_parse
     (''<configuration>'' @ [NL] @ ''<property><name>x</name></property>'' @ [NL]
        @ ''<property><name>y</name><value>7</value></property>'' @ [NL]
        @ ''<property><name>x</name><value>5</value></property>'' @ [NL] @ ''</configuration>'')
     ''x'' (PStr ''9'') False True
   = Some (Inr (True,
      ''<configuration>'' @ [NL] @ ''<property><name>x</name></property>'' @ [NL]
        @ ''<property><name>y</name><value>9</value></property>'' @ [NL]
        @ ''<property><name>x</name><value>5</value></property>'' @ [NL] @ ''</configuration>''))"
  by (simp add: xml_eval)

text \<open>C1, amended. A replacing write of the XML store that succeeds changes no line other
  than the first line \<open>l\<close> that contains \<^verbatim>\<open><name>NAME</name>\<close> and, when \<open>l\<close> does not contain
  \<^verbatim>\<open><value>\<close>, the line that follows \<open>l\<close>: the lines before and after are copied as they
  are. A replacing write of the flat store changes no line other than the first line whose
  key is the name.\<close>

theorem replacing_write_keeps_other_lines:
  "(read_param_in_xml_file parse f name PNone = Inr cur \<and> truthy cur \<and>
    replace_in_xml_file parse f name val create_if_absent True = Some (Inr (b, f')) \<longrightarrow>
      (\<exists>pre l post new. file_lines f = pre @ l # post \<and>
           (\<forall>p\<in>set pre. \<not> sublist (''<name>'' @ name @ ''</name>'') p) \<and>
           sublist (''<name>'' @ name @ ''</name>'') l \<and> b \<and>
           (if sublist ''<value>'' l
            then replace_line l val = Inr new \<and> f' = concat pre @ new @ concat post
            else replace_line (case post of [] \<Rightarrow> [] | l2 # _ \<Rightarrow> l2) val = Inr new \<and>
                 f' = concat pre @ l @ new @ concat (tl post)))) \<and>
   (read_param_in_props_file g name PNone = Inr c \<and> truthy c \<longrightarrow>
      (\<exists>pre l post new. file_lines g = pre @ l # post \<and>
           (\<forall>p\<in>set pre. line_key p \<noteq> PStr name) \<and> line_key l = PStr name \<and>
           write_in_props_file g name val create_if_absent True =
             Some (Inr (True, concat pre @ new @ concat post))))"
proof (intro conjI impI)
  assume "read_param_in_xml_file parse f name PNone = Inr cur \<and> truthy cur \<and>
    replace_in_xml_file parse f name val create_if_absent True = Some (Inr (b, f'))"
  then show "\<exists>pre l post new. file_lines f = pre @ l # post \<and>
           (\<forall>p\<in>set pre. \<not> sublist (''<name>'' @ name @ ''</name>'') p) \<and>
           sublist (''<name>'' @ name @ ''</name>'') l \<and> b \<and>
           (if sublist ''<value>'' l
            then replace_line l val = Inr new \<and> f' = concat pre @ new @ concat post
            else replace_line (case post of [] \<Rightarrow> [] | l2 # _ \<Rightarrow> l2) val = Inr new \<and>
                 f' = concat pre @ l @ new @ concat (tl post))"
    using replace_in_xml_file_replace [of parse f name cur val create_if_absent b f'] by blast
next
  assume a: "read_param_in_props_file g name PNone = Inr c \<and> truthy c"
  from write_in_props_file_replace [of g name c val create_if_absent] a
  obtain pre l post where
    d: "file_lines g = pre @ l # post" "\<forall>p\<in>set pre. unpacks p \<and> line_key p \<noteq> PStr name"
      "parse_props_line l = [PStr name, c]"
      "write_in_props_file g name val create_if_absent True =
         Some (Inr (True, concat pre @ name @ [TAB] @ py_str val @ [NL] @ concat post))"
    by blast
  from d(3) have "line_key l = PStr name" by (simp add: line_key_def)
  with d show "\<exists>pre l post new. file_lines g = pre @ l # post \<and>
           (\<forall>p\<in>set pre. line_key p \<noteq> PStr name) \<and> line_key l = PStr name \<and>
           write_in_props_file g name val create_if_absent True =
             Some (Inr (True, concat pre @ new @ concat post))"
    by (intro exI [of _ pre] exI [of _ l] exI [of _ post]
          exI [of _ "name @ [TAB] @ py_str val @ [NL]"]) simp
qed

theorem replacing_write_keeps_other_lines_witness:
  "read_param_in_xml_file xml_parse
     (''<configuration>'' @ [NL] @ ''<property>'' @ [NL] @ ''<name>x</name>'' @ [NL]
        @ ''<value>1</value>'' @ [NL] @ ''</property>'' @ [NL] @ ''</configuration>'')
     ''x'' PNone = Inr (PStr ''1'') \<and>
   replace_in_xml_file xml_parse
     (''<configuration>'' @ [NL] @ ''<property>'' @ [NL] @ ''<name>x</name>'' @ [NL]
        @ ''<value>1</value>'' @ [NL] @ ''</property>'' @ [NL] @ ''</configuration>'')
     ''x'' (PStr ''2'') False True
   = Some (Inr (True,
      ''<configuration>'' @ [NL] @ ''<property>'' @ [NL] @ ''<name>x</name>'' @ [NL]
        @ ''<value>2</value>'' @ [NL] @ ''</property>'' @ [NL] @ ''</configuration>'')) \<and>
   (\<exists>pre l post new.
      file_lines (''<configuration>'' @ [NL] @ ''<property>'' @ [NL] @ ''<name>x</name>'' @ [NL]
        @ ''<value>1</value>'' @ [NL] @ ''</property>'' @ [NL] @ ''</configuration>'') = pre @ l # post \<and>
      sublist (''<name>'' @ ''x'' @ ''</name>'') l \<and>
      (if sublist ''<value>'' l
       then replace_line l (PStr ''2'') = Inr new \<and>
            ''<configuration>'' @ [NL] @ ''<property>'' @ [NL] @ ''<name>x</name>'' @ [NL]
              @ ''<value>2</value>'' @ [NL] @ ''</property>'' @ [NL] @ ''</configuration>''
            = concat pre @ new @ concat post
       else replace_line (case post of [] \<Rightarrow> [] | l2 # _ \<Rightarrow> l2) (PStr ''2'') = Inr new \<and>
            ''<configuration>'' @ [NL] @ ''<property>'' @ [NL] @ ''<name>x</name>'' @ [NL]
              @ ''<value>2</value>'' @ [NL] @ ''</property>'' @ [NL] @ ''</configuration>''
            = concat pre @ l @ new @ concat (tl post))) \<and>
   read_param_in_props_file (''a 1'' @ [NL] @ ''b  2'' @ [NL] @ ''c 3'' @ [NL]) ''b'' PNone
     = Inr (PStr ''2'') \<and>
   (\<exists>pre l post new.
      file_lines (''a 1'' @ [NL] @ ''b  2'' @ [NL] @ ''c 3'' @ [NL]) = pre @ l # post \<and>
      line_key l = PStr ''b'' \<and>
      write_in_props_file (''a 1'' @ [NL] @ ''b  2'' @ [NL] @ ''c 3'' @ [NL]) ''b'' (PStr ''9'') False True =
        Some (Inr (True, concat pre @ new @ concat post)))"
proof -
  let ?f = "''<configuration>'' @ [NL] @ ''<property>'' @ [NL] @ ''<name>x</name>'' @ [NL]
        @ ''<value>1</value>'' @ [NL] @ ''</property>'' @ [NL] @ ''</configuration>''"
  let ?f' = "''<configuration>'' @ [NL] @ ''<property>'' @ [NL] @ ''<name>x</name>'' @ [NL]
        @ ''<value>2</value>'' @ [NL] @ ''</property>'' @ [NL] @ ''</configuration>''"
  let ?g = "''a 1'' @ [NL] @ ''b  2'' @ [NL] @ ''c 3'' @ [NL]"
  have x: "read_param_in_xml_file xml_parse ?f ''x'' PNone = Inr (PStr ''1'')"
    by (simp add: xml_eval)
  have t: "truthy (PStr ''1'')" "truthy (PStr ''2'')" by simp_all
  have r: "replace_in_xml_file xml_parse ?f ''x'' (PStr ''2'') False True = Some (Inr (True, ?f'))"
    by (simp add: xml_eval)
  have p: "read_param_in_props_file ?g ''b'' PNone = Inr (PStr ''2'')"
    by (simp add: flat_eval)
  note th = replacing_write_keeps_other_lines [of xml_parse ?f "''x''" "PStr ''1''" "PStr ''2''"
      False True ?f' ?g "PStr ''2''"]
  from th x t r have "\<exists>pre l post new. file_lines ?f = pre @ l # post \<and>
      (\<forall>p\<in>set pre. \<not> sublist (''<name>'' @ ''x'' @ ''</name>'') p) \<and>
      sublist (''<name>'' @ ''x'' @ ''</name>'') l \<and> True \<and>
      (if sublist ''<value>'' l
       then replace_line l (PStr ''2'') = Inr new \<and> ?f' = concat pre @ new @ concat post
       else replace_line (case post of [] \<Rightarrow> [] | l2 # _ \<Rightarrow> l2) (PStr ''2'') = Inr new \<and>
            ?f' = concat pre @ l @ new @ concat (tl post))"
    by blast
  then have a: "\<exists>pre l post new. file_lines ?f = pre @ l # post \<and>
      sublist (''<name>'' @ ''x'' @ ''</name>'') l \<and>
      (if sublist ''<value>'' l
       then replace_line l (PStr ''2'') = Inr new \<and> ?f' = concat pre @ new @ concat post
       else replace_line (case post of [] \<Rightarrow> [] | l2 # _ \<Rightarrow> l2) (PStr ''2'') = Inr new \<and>
            ?f' = concat pre @ l @ new @ concat (tl post))"
    by blast
  from replacing_write_keeps_other_lines [of xml_parse "[]" "''b''" PNone "PStr ''9''"
      False True "[]" ?g "PStr ''2''"] p t
  have "\<exists>pre l post new. file_lines ?g = pre @ l # post \<and>
           (\<forall>p\<in>set pre. line_key p \<noteq> PStr ''b'') \<and> line_key l = PStr ''b'' \<and>
           write_in_props_file ?g ''b'' (PStr ''9'') False True =
             Some (Inr (True, concat pre @ new @ concat post))"
    by blast
  then have b: "\<exists>pre l post new. file_lines ?g = pre @ l # post \<and> line_key l = PStr ''b'' \<and>
           write_in_props_file ?g ''b'' (PStr ''9'') False True =
             Some (Inr (True, concat pre @ new @ concat post))"
    by blast
  from x r a p b show ?thesis by blast
qed

section \<open>The parser on the documents the writer produces\<close>

lemma plain_not_lt: "plain c \<Longrightarrow> c \<noteq> CHR ''<''"
  by (auto simp: plain_def)

lemma foldl_step_plain:
  "list_all plain s \<Longrightarrow> foldl step (PS st dn (InText buf)) s = PS st dn (InText (buf @ s))"
  by (induction s arbitrary: buf) (auto simp: plain_not_lt)

lemma flush_frame:
  "buf \<noteq> [] \<Longrightarrow> flush (fr # st) buf = Inr (after_text fr buf # st)"
  by (cases fr; cases buf) (auto simp: after_text_def)

lemmas tag_eval = valid_name_def name_char_def name_start_def plain_def

lemma foldl_step_entry:
  assumes "plain_text (fst e)" and "plain_text (snd e)"
  shows "foldl step (PS (fr # st) dn (InText [NL])) (render_entry e)
           = PS (add_entry fr e # st) dn (InText [NL])"
proof -
  obtain n v where e: "e = (n, v)" by (cases e)
  from assms e have n: "n \<noteq> []" "list_all plain n" and v: "v \<noteq> []" "list_all plain v"
    by (simp_all add: plain_text_def)
  obtain tag tx kids where fr: "after_text fr (NL # ''  '') = (tag, tx, kids)"
    by (cases "after_text fr (NL # ''  '')")
  have 1: "foldl step (PS (fr # st) dn (InText [NL])) ''  <property><name>''
         = PS ((''name'', None, []) # (''property'', None, []) # (tag, tx, kids) # st) dn (InText [])"
    by (simp add: flush_frame fr tag_eval)
  have 2: "foldl step (PS ((''name'', None, []) # (''property'', None, []) # (tag, tx, kids) # st) dn (InText []))
             (n @ ''</name><value>'')
         = PS ((''value'', None, []) # (''property'', None, [Element ''name'' (Some n) [] None]) # (tag, tx, kids) # st) dn (InText [])"
    using n by (simp add: foldl_step_plain flush_frame after_text_def tag_eval)
  have 3: "foldl step (PS ((''value'', None, []) # (''property'', None, [Element ''name'' (Some n) [] None]) # (tag, tx, kids) # st) dn (InText []))
             (v @ ''</value></property>'' @ [NL])
         = PS ((tag, tx, kids @ [entry_elem (n, v)]) # st) dn (InText [NL])"
    using v by (simp add: foldl_step_plain flush_frame after_text_def tag_eval entry_elem_def)
  have r: "render_entry e = ''  <property><name>'' @ (n @ ''</name><value>'') @ (v @ ''</value></property>'' @ [NL])"
    by (simp add: render_entry_def e)
  have "foldl step (PS (fr # st) dn (InText [NL]))
          (''  <property><name>'' @ (n @ ''</name><value>'') @ (v @ ''</value></property>'' @ [NL]))
        = foldl step (foldl step (foldl step (PS (fr # st) dn (InText [NL])) ''  <property><name>'')
            (n @ ''</name><value>'')) (v @ ''</value></property>'' @ [NL])"
    by (simp only: foldl_append)
  also have "\<dots> = PS ((tag, tx, kids @ [entry_elem (n, v)]) # st) dn (InText [NL])"
    by (simp only: 1 2 3)
  finally have "foldl step (PS (fr # st) dn (InText [NL]))
          (''  <property><name>'' @ (n @ ''</name><value>'') @ (v @ ''</value></property>'' @ [NL]))
        = PS ((tag, tx, kids @ [entry_elem (n, v)]) # st) dn (InText [NL])" .
  moreover have "add_entry fr e = (tag, tx, kids @ [entry_elem (n, v)])"
    by (simp add: add_entry_def fr e)
  ultimately show ?thesis by (simp only: r)
qed

lemma foldl_step_entries:
  "\<forall>e\<in>set es. plain_text (fst e) \<and> plain_text (snd e) \<Longrightarrow>
   foldl step (PS (fr # st) dn (InText [NL])) (concat (map render_entry es))
     = PS (foldl add_entry fr es # st) dn (InText [NL])"
proof (induction es arbitrary: fr)
  case Nil
  then show ?case by simp
next
  case (Cons e es)
  then have e: "plain_text (fst e)" "plain_text (snd e)"
    and es: "\<forall>e\<in>set es. plain_text (fst e) \<and> plain_text (snd e)" by simp_all
  have "foldl step (PS (fr # st) dn (InText [NL])) (concat (map render_entry (e # es)))
      = foldl step (foldl step (PS (fr # st) dn (InText [NL])) (render_entry e))
          (concat (map render_entry es))"
    by (simp only: list.map concat.simps foldl_append)
  also have "\<dots> = PS (foldl add_entry (add_entry fr e) es # st) dn (InText [NL])"
    by (simp only: foldl_step_entry [OF e] Cons.IH [OF es])
  finally show ?case by simp
qed

lemma frame_tag_after_text [simp]: "fst (after_text fr buf) = fst fr"
  by (cases fr) (simp add: after_text_def)

lemma frame_tag_add_entry [simp]: "fst (add_entry fr e) = fst fr"
proof -
  have "fst (after_text fr (NL # ''  '')) = fst fr" by simp
  then show ?thesis
    by (cases "after_text fr (NL # ''  '')") (simp add: add_entry_def)
qed

lemma frame_tag_entries [simp]: "fst (foldl add_entry fr es) = fst fr"
  by (induction es arbitrary: fr) simp_all

text \<open>The parser reads a document the writer produces as the tree of its entries.\<close>

lemma xml_parse_render_doc:
  assumes "\<forall>e\<in>set es. plain_text (fst e) \<and> plain_text (snd e)"
  shows "xml_parse (render_doc es)
           = Inr (close_frame (after_text (foldl add_entry (''configuration'', None, []) es) [NL]))"
proof -
  let ?fr = "foldl add_entry (''configuration'', None, []) es"
  obtain tag tx kids where fr: "after_text ?fr [NL] = (tag, tx, kids)"
    by (cases "after_text ?fr [NL]")
  have "fst (after_text ?fr [NL]) = ''configuration''" by simp
  with fr have tag: "tag = ''configuration''" by simp
  have 1: "foldl step (PS [] None (InText [])) (''<configuration>'' @ [NL])
         = PS [(''configuration'', None, [])] None (InText [NL])"
    by (simp add: tag_eval)
  have 2: "foldl step (PS [(''configuration'', None, [])] None (InText [NL]))
             (concat (map render_entry es)) = PS [?fr] None (InText [NL])"
    by (rule foldl_step_entries [OF assms])
  have 3: "foldl step (PS [?fr] None (InText [NL])) ''</configuration>''
         = PS [] (Some (Element tag tx kids None)) (InText [])"
    by (simp add: flush_frame fr tag tag_eval)
  have "foldl step (PS [] None (InText [])) (render_doc es)
      = foldl step (foldl step (foldl step (PS [] None (InText [])) (''<configuration>'' @ [NL]))
          (concat (map render_entry es))) ''</configuration>''"
    by (simp only: render_doc_def foldl_append append_assoc)
  also have "\<dots> = PS [] (Some (Element tag tx kids None)) (InText [])"
    by (simp only: 1 2 3)
  finally show ?thesis
    by (simp add: xml_parse_def close_frame_def fr)
qed

section \<open>Lookups in the documents the writer produces\<close>

lemma is_entry_kid_core [simp]: "is_entry k (kid_core e) = is_entry k e"
  by (simp add: is_entry_def kid_core_def)

lemma entry_values_kid_core [simp]: "entry_values (kid_core e) = entry_values e"
  by (simp add: entry_values_def kid_core_def)

lemma kid_core_set_tail [simp]: "kid_core (set_tail e s) = kid_core e"
  by (simp add: kid_core_def set_tail_def)

lemma kid_core_entry_elem [simp]: "kid_core (entry_elem e) = entry_elem e"
  by (simp add: kid_core_def entry_elem_def)

lemma values_kid_core:
  "concat (map entry_values (filter (is_entry k) (map kid_core kids)))
     = concat (map entry_values (filter (is_entry k) kids))"
  by (induction kids) simp_all

lemma map_kid_core_butlast:
  assumes "kids \<noteq> []"
  shows "map kid_core (butlast kids) @ [kid_core (last kids)] = map kid_core kids"
proof -
  from assms have "map kid_core (butlast kids @ [last kids]) = map kid_core kids" by simp
  then show ?thesis by (simp only: map_append list.map)
qed

lemma kids_after_text:
  "map kid_core (snd (snd (after_text fr buf))) = map kid_core (snd (snd fr))"
  by (cases fr) (auto simp: after_text_def map_kid_core_butlast)

lemma kids_add_entry:
  "map kid_core (snd (snd (add_entry fr e))) = map kid_core (snd (snd fr)) @ [entry_elem e]"
proof -
  obtain tag tx kids where a: "after_text fr (NL # ''  '') = (tag, tx, kids)"
    by (cases "after_text fr (NL # ''  '')")
  from kids_after_text [of fr "NL # ''  ''"] a
  have "map kid_core kids = map kid_core (snd (snd fr))" by simp
  with a show ?thesis by (simp add: add_entry_def)
qed

lemma kids_entries:
  "map kid_core (snd (snd (foldl add_entry fr es)))
     = map kid_core (snd (snd fr)) @ map entry_elem es"
  by (induction es arbitrary: fr) (simp_all add: kids_add_entry)

lemma is_entry_entry_elem [simp]: "is_entry k (entry_elem e) \<longleftrightarrow> fst e = k"
  by (simp add: is_entry_def entry_elem_def opt_str_def)

lemma entry_values_entry_elem [simp]:
  "entry_values (entry_elem e) = [Element ''value'' (Some (snd e)) [] None]"
  by (simp add: entry_values_def entry_elem_def)

lemma values_entries:
  "concat (map entry_values (filter (is_entry k) (map entry_elem es)))
     = map (\<lambda>e. Element ''value'' (Some (snd e)) [] None) (filter (\<lambda>e. fst e = k) es)"
  by (induction es) simp_all

text \<open>The values that the path of the readers selects in a document the writer produces:
  those of the entries with the name, in order.\<close>

lemma findall_values_render_doc:
  assumes "\<forall>e\<in>set es. plain_text (fst e) \<and> plain_text (snd e)" and "CHR 0x27 \<notin> set k"
  shows "\<exists>root. xml_parse (render_doc es) = Inr root \<and>
           findall_values root k
             = Inr (map (\<lambda>e. Element ''value'' (Some (snd e)) [] None) (filter (\<lambda>e. fst e = k) es))"
proof -
  let ?fr = "after_text (foldl add_entry (''configuration'', None, []) es) [NL]"
  have ch: "el_children (close_frame ?fr) = snd (snd ?fr)"
    by (cases ?fr) (simp add: close_frame_def)
  have "map kid_core (snd (snd ?fr)) = map entry_elem es"
    by (simp add: kids_after_text kids_entries)
  then have "concat (map entry_values (filter (is_entry k) (snd (snd ?fr))))
           = concat (map entry_values (filter (is_entry k) (map entry_elem es)))"
    using values_kid_core [of k "snd (snd ?fr)"] by simp
  with assms(2) ch have "findall_values (close_frame ?fr) k
      = Inr (map (\<lambda>e. Element ''value'' (Some (snd e)) [] None) (filter (\<lambda>e. fst e = k) es))"
    by (simp add: findall_values_entries values_entries)
  with xml_parse_render_doc [OF assms(1)] show ?thesis by blast
qed

lemma read_param_render_doc:
  assumes "\<forall>e\<in>set es. plain_text (fst e) \<and> plain_text (snd e)" and "CHR 0x27 \<notin> set k"
  shows "read_param_in_xml_file xml_parse (render_doc es) k dflt
           = Inr (case filter (\<lambda>e. fst e = k) es of [] \<Rightarrow> dflt | e # _ \<Rightarrow> PStr (snd e))"
proof -
  from findall_values_render_doc [OF assms] obtain root where
    r: "xml_parse (render_doc es) = Inr root"
       "findall_values root k
          = Inr (map (\<lambda>e. Element ''value'' (Some (snd e)) [] None) (filter (\<lambda>e. fst e = k) es))"
    by blast
  then show ?thesis
    by (cases "filter (\<lambda>e. fst e = k) es") (simp_all add: read_param_in_xml_file_def py_text_def)
qed

section \<open>The creating write on the documents the writer produces\<close>

lemma readline_append_nl:
  "NL \<in> set s \<Longrightarrow> readline (s @ t) = (fst (readline s), snd (readline s) @ t)"
  by (induction s) (auto split: prod.splits)

lemma file_lines_append:
  "s = [] \<or> last s = NL \<Longrightarrow> file_lines (s @ t) = file_lines s @ file_lines t"
proof (induction s rule: file_lines.induct)
  case (1 s)
  show ?case
  proof (cases "s = []")
    case True
    then show ?thesis by simp
  next
    case False
    with "1.prems" have l: "last s = NL" by simp
    with False have nl: "NL \<in> set s" by (metis last_in_set)
    let ?r = "snd (readline s)"
    have r: "?r = [] \<or> last ?r = NL"
    proof (cases "?r = []")
      case True then show ?thesis by simp
    next
      case F: False
      from readline_append [of s] have "s = fst (readline s) @ ?r" by simp
      with F have "last s = last ?r" by (metis last_appendR)
      with l show ?thesis by simp
    qed
    from "1.IH" [OF False r] have IH: "file_lines (?r @ t) = file_lines ?r @ file_lines t" .
    from False have "file_lines (s @ t) = fst (readline (s @ t)) # file_lines (snd (readline (s @ t)))"
      by (intro file_lines_Cons) simp
    also have "\<dots> = fst (readline s) # file_lines (?r @ t)"
      by (simp add: readline_append_nl [OF nl])
    also have "\<dots> = (fst (readline s) # file_lines ?r) @ file_lines t"
      by (simp add: IH)
    also have "fst (readline s) # file_lines ?r = file_lines s"
      by (rule file_lines_Cons [OF False, symmetric])
    finally show ?thesis .
  qed
qed

lemma file_lines_one_line: "s \<noteq> [] \<Longrightarrow> NL \<notin> set s \<Longrightarrow> file_lines s = [s]"
proof -
  assume s: "s \<noteq> []" "NL \<notin> set s"
  have "NL \<notin> set s \<Longrightarrow> readline s = (s, [])" for s
    by (induction s) (auto split: prod.splits)
  with s show ?thesis by (simp add: file_lines_Cons)
qed

lemma line_is_sublist: "p \<in> set (file_lines s) \<Longrightarrow> sublist p s"
proof -
  assume "p \<in> set (file_lines s)"
  then obtain A B where "file_lines s = A @ p # B" by (auto simp: in_set_conv_decomp)
  then have "concat (file_lines s) = concat A @ p @ concat B" by simp
  then show ?thesis by (simp add: sublist_def) blast
qed

lemma sublist_skip:
  "c \<notin> set a \<Longrightarrow> sublist (c # m) (a @ t) \<longleftrightarrow> sublist (c # m) t"
  by (induction a) (auto simp: sublist_Cons_right)

lemma plain_no_lt: "list_all plain s \<Longrightarrow> CHR ''<'' \<notin> set s"
  by (induction s) (auto simp: plain_def)

lemma no_closing_tag_entry:
  assumes "plain_text (fst e)" and "plain_text (snd e)"
  shows "sublist ''</configuration>'' (render_entry e @ t) \<longleftrightarrow> sublist ''</configuration>'' t"
proof -
  from assms have "CHR ''<'' \<notin> set (fst e)" "CHR ''<'' \<notin> set (snd e)"
    by (simp_all add: plain_text_def plain_no_lt)
  then show ?thesis
    by (simp add: render_entry_def sublist_Cons_right sublist_skip)
qed

lemma no_closing_tag_entries:
  "\<forall>e\<in>set es. plain_text (fst e) \<and> plain_text (snd e) \<Longrightarrow>
   sublist ''</configuration>'' (concat (map render_entry es) @ t) \<longleftrightarrow> sublist ''</configuration>'' t"
  by (induction es) (simp_all add: no_closing_tag_entry)

lemma sublist_in_line:
  assumes "p \<in> set (file_lines s)" and "sublist x p"
  shows "sublist x s"
proof -
  from line_is_sublist [OF assms(1)] obtain a b where "s = a @ p @ b"
    by (auto simp: sublist_def)
  moreover from assms(2) obtain c d where "p = c @ x @ d" by (auto simp: sublist_def)
  ultimately have "s = (a @ c) @ x @ (d @ b)" by simp
  then show ?thesis unfolding sublist_def by blast
qed

lemma render_entries_end:
  "concat (map render_entry es) = [] \<or> last (concat (map render_entry es)) = NL"
  by (induction es) (auto simp: render_entry_def)

text \<open>The creating write on a document the writer produces appends an entry to it.\<close>

lemma replace_in_xml_file_create_render_doc:
  assumes "\<forall>e\<in>set es. plain_text (fst e) \<and> plain_text (snd e)"
    and "read_param_in_xml_file parse (render_doc es) k PNone = Inr cur" and "\<not> truthy cur"
  shows "replace_in_xml_file parse (render_doc es) k val True replace_if_present
           = Some (Inr (True, render_doc (es @ [(k, py_str val)])))"
proof -
  let ?body = "concat (map render_entry es)"
  let ?head = "''<configuration>'' @ [NL] @ ?body"
  have doc: "render_doc es = ?head @ ''</configuration>''" by (simp add: render_doc_def)
  have hl: "?head = [] \<or> last ?head = NL"
  proof (cases "?body = []")
    case True
    then show ?thesis by simp
  next
    case False
    with render_entries_end [of es] have "last ?body = NL" by blast
    with False show ?thesis by (simp only: last_append last.simps) simp
  qed
  have one: "file_lines ''</configuration>'' = [''</configuration>'']"
    by (rule file_lines_one_line) simp_all
  have fl: "file_lines (render_doc es) = file_lines ?head @ ''</configuration>'' # []"
    unfolding doc using file_lines_append [OF hl, of "''</configuration>''"] one
    by (simp only:)
  have "\<not> sublist ''</configuration>'' (?body @ [])"
    by (simp only: no_closing_tag_entries [OF assms(1)]) simp
  then have nh: "\<not> sublist ''</configuration>'' ?head"
    by (simp add: sublist_Cons_right)
  have np: "\<forall>p\<in>set (file_lines ?head). \<not> sublist ''</configuration>'' p"
    using sublist_in_line nh by blast
  have "sublist ''</configuration>'' ''</configuration>''" by simp
  from copy_until_lines [OF fl np this, of "[]"]
  have cu: "copy_until (sublist ''</configuration>'') (fst (readline (render_doc es)))
              (snd (readline (render_doc es))) [] = Some (''</configuration>'', [], ?head)"
    by simp
  from assms(2,3) cu show ?thesis
    by (simp add: replace_in_xml_file_def) (simp add: render_doc_def render_entry_def)
qed

section \<open>The creating write of the flat store\<close>

lemma split_acc_token:
  "list_all (\<lambda>c. \<not> is_space c) w \<Longrightarrow> split_acc cur (w @ rest) = split_acc (cur @ w) rest"
  by (induction w arbitrary: cur) simp_all

lemma split_entry_line:
  assumes "token k" and "token v"
  shows "split (k @ [TAB] @ v @ [NL]) = [k, v]"
proof -
  from assms have k: "k \<noteq> []" "list_all (\<lambda>c. \<not> is_space c) k"
    and v: "v \<noteq> []" "list_all (\<lambda>c. \<not> is_space c) v" by (simp_all add: token_def)
  have "split_acc [] (k @ ([TAB] @ v @ [NL])) = split_acc ([] @ k) ([TAB] @ v @ [NL])"
    by (rule split_acc_token [OF k(2)])
  also have "\<dots> = k # split_acc [] (v @ [NL])" using k(1) by (simp add: is_space_def)
  also have "split_acc [] (v @ [NL]) = split_acc ([] @ v) [NL]"
    by (rule split_acc_token [OF v(2)])
  also have "\<dots> = [v]" using v(1) by (simp add: is_space_def)
  finally show ?thesis by (simp add: split_def)
qed

lemma parse_entry_line:
  assumes "token k" and "token v" and "\<not> prefix ''#'' k"
  shows "parse_props_line (k @ [TAB] @ v @ [NL]) = [PStr k, PStr v]"
proof -
  from assms(1) obtain c cs where "k = c # cs" by (cases k) (auto simp: token_def)
  with assms(3) have "\<not> prefix ''#'' (k @ [TAB] @ v @ [NL])" by simp
  with split_entry_line [OF assms(1,2)] show ?thesis by (simp add: parse_props_line_def)
qed

lemma file_lines_entry_line:
  assumes "token k" and "token v" and "g = [] \<or> last g = NL"
  shows "file_lines (g @ k @ [TAB] @ v @ [NL]) = file_lines g @ [k @ [TAB] @ v @ [NL]]"
proof -
  from assms(1,2) have "NL \<notin> set k" "NL \<notin> set v"
    by (auto simp: token_def list_all_iff is_space_def)
  then have nl: "NL \<notin> set (k @ [TAB] @ v)" by simp
  have "NL \<notin> set s \<Longrightarrow> readline (s @ [NL]) = (s @ [NL], [])" for s
    by (induction s) (auto split: prod.splits)
  from this [OF nl] have "file_lines ((k @ [TAB] @ v) @ [NL]) = [(k @ [TAB] @ v) @ [NL]]"
    by (simp add: file_lines_Cons)
  with file_lines_append [OF assms(3), of "k @ [TAB] @ v @ [NL]"] show ?thesis by simp
qed

text \<open>C8, as it is stated, fails: on the file \<^verbatim>\<open><configuration></configuration>\<close>, whose
  content is only the root element pair, the line that contains the closing tag is the
  whole file, the property is inserted before it, outside the root element, and the
  result is no XML document.\<close>

theorem replace_in_xml_file_root_pair_on_one_line:
  "read_param_in_xml_file xml_parse ''<configuration></configuration>'' ''x'' PNone = Inr PNone \<and>
   replace_in_xml_file xml_parse ''<configuration></configuration>'' ''x'' (PStr ''1'') True True
     = Some (Inr (True, ''  <property><name>x</name><value>1</value></property>'' @ [NL]
         @ ''<configuration></configuration>'')) \<and>
   xml_parse (''  <property><name>x</name><value>1</value></property>'' @ [NL]
         @ ''<configuration></configuration>'') = Inl ParseError"
  by (simp add: xml_eval)

text \<open>C8, amended. On the file that \<^verbatim>\<open>create_xml_file\<close> writes (the root tags on two lines),
  for a key that the lookup does not find, the creating write returns true and inserts
  the one line \<^verbatim>\<open>  <property><name>NAME</name><value>VALUE</value></property>\<close> between the
  line of the opening tag and the line of the closing tag; for a name and a value of
  plain text the result parses as a root element with that property as its only child.
  In a flat file in which the lookup does not find the key, the creating write returns
  true and appends the name, one tab, the string of the value and a newline.\<close>

theorem creating_write:
  "(read_param_in_xml_file parse create_xml_file name PNone = Inr cur \<and> \<not> truthy cur \<longrightarrow>
      replace_in_xml_file parse create_xml_file name val True replace_if_present
        = Some (Inr (True, ''<configuration>'' @ [NL] @ ''  <property><name>'' @ name @
            ''</name><value>'' @ py_str val @ ''</value></property>'' @ [NL] @
            ''</configuration>''))) \<and>
   (plain_text name \<and> plain_text (py_str val) \<longrightarrow>
      xml_parse (''<configuration>'' @ [NL] @ ''  <property><name>'' @ name @
            ''</name><value>'' @ py_str val @ ''</value></property>'' @ [NL] @
            ''</configuration>'')
        = Inr (Element ''configuration'' (Some (NL # ''  ''))
            [Element ''property'' None
               [Element ''name'' (Some name) [] None,
                Element ''value'' (Some (py_str val)) [] None] (Some [NL])] None)) \<and>
   (read_param_in_props_file g name PNone = Inr c \<and> \<not> truthy c \<longrightarrow>
      write_in_props_file g name val True override
        = Some (Inr (True, g @ name @ [TAB] @ py_str val @ [NL])))"
proof (intro conjI impI)
  have c: "create_xml_file = render_doc []"
    by (simp add: create_xml_file_def render_doc_def)
  assume "read_param_in_xml_file parse create_xml_file name PNone = Inr cur \<and> \<not> truthy cur"
  then have "read_param_in_xml_file parse (render_doc []) name PNone = Inr cur" "\<not> truthy cur"
    by (simp_all add: c)
  from replace_in_xml_file_create_render_doc [OF _ this, of val replace_if_present]
  show "replace_in_xml_file parse create_xml_file name val True replace_if_present
        = Some (Inr (True, ''<configuration>'' @ [NL] @ ''  <property><name>'' @ name @
            ''</name><value>'' @ py_str val @ ''</value></property>'' @ [NL] @
            ''</configuration>''))"
    by (simp add: c) (simp add: render_doc_def render_entry_def)
next
  assume "plain_text name \<and> plain_text (py_str val)"
  then have "\<forall>e\<in>set [(name, py_str val)]. plain_text (fst e) \<and> plain_text (snd e)" by simp
  from xml_parse_render_doc [OF this]
  show "xml_parse (''<configuration>'' @ [NL] @ ''  <property><name>'' @ name @
            ''</name><value>'' @ py_str val @ ''</value></property>'' @ [NL] @
            ''</configuration>'')
        = Inr (Element ''configuration'' (Some (NL # ''  ''))
            [Element ''property'' None
               [Element ''name'' (Some name) [] None,
                Element ''value'' (Some (py_str val)) [] None] (Some [NL])] None)"
    by (simp add: render_doc_def render_entry_def add_entry_def after_text_def close_frame_def
          entry_elem_def set_tail_def)
next
  assume "read_param_in_props_file g name PNone = Inr c \<and> \<not> truthy c"
  then show "write_in_props_file g name val True override
        = Some (Inr (True, g @ name @ [TAB] @ py_str val @ [NL]))"
    by (simp add: write_in_props_file_def)
qed

theorem creating_write_witness:
  "read_param_in_xml_file xml_parse create_xml_file ''c'' PNone = Inr PNone \<and>
   replace_in_xml_file xml_parse create_xml_file ''c'' (PStr ''3'') True True
     = Some (Inr (True, ''<configuration>'' @ [NL]
         @ ''  <property><name>c</name><value>3</value></property>'' @ [NL] @ ''</configuration>'')) \<and>
   xml_parse (''<configuration>'' @ [NL]
         @ ''  <property><name>c</name><value>3</value></property>'' @ [NL] @ ''</configuration>'')
     = Inr (Element ''configuration'' (Some (NL # ''  ''))
         [Element ''property'' None
            [Element ''name'' (Some ''c'') [] None, Element ''value'' (Some ''3'') [] None]
            (Some [NL])] None) \<and>
   read_param_in_props_file (''a'' @ [TAB] @ ''1'' @ [NL] @ ''b'' @ [TAB] @ ''2'' @ [NL]) ''c'' PNone
     = Inr PNone \<and>
   write_in_props_file (''a'' @ [TAB] @ ''1'' @ [NL] @ ''b'' @ [TAB] @ ''2'' @ [NL]) ''c'' (PStr ''3'') True True
     = Some (Inr (True, ''a'' @ [TAB] @ ''1'' @ [NL] @ ''b'' @ [TAB] @ ''2'' @ [NL]
         @ ''c'' @ [TAB] @ ''3'' @ [NL]))"
proof -
  let ?g = "''a'' @ [TAB] @ ''1'' @ [NL] @ ''b'' @ [TAB] @ ''2'' @ [NL]"
  have x: "read_param_in_xml_file xml_parse create_xml_file ''c'' PNone = Inr PNone"
    by (simp add: xml_eval)
  have t: "\<not> truthy PNone" by simp
  have p: "plain_text ''c'' \<and> plain_text (py_str (PStr ''3''))"
    by (simp add: plain_text_def plain_def)
  have f: "read_param_in_props_file ?g ''c'' PNone = Inr PNone"
    by (simp add: flat_eval)
  from creating_write [of xml_parse "''c''" PNone "PStr ''3''" True ?g PNone True] x t p f
  show ?thesis by simp
qed

section \<open>Termination of the XML writer\<close>

lemma first_stop_line:
  assumes "\<exists>l\<in>set ls. stop l"
  shows "\<exists>pre l post. ls = pre @ l # post \<and> (\<forall>p\<in>set pre. \<not> stop p) \<and> stop l"
  using assms split_list_first_prop [of ls stop] by blast

text \<open>A search loop that finds no stopping line does not return.\<close>

lemma copy_until_None:
  assumes "\<not> stop []" and "\<forall>l\<in>set (file_lines f). \<not> stop l"
  shows "copy_until stop (fst (readline f)) (snd (readline f)) out = None"
proof (cases "copy_until stop (fst (readline f)) (snd (readline f)) out")
  case None
  then show ?thesis .
next
  case (Some y)
  obtain l inp out' where "y = (l, inp, out')" by (cases y)
  with Some have "copy_until stop (fst (readline f)) (snd (readline f)) out = Some (l, inp, out')"
    by simp
  from copy_until_SomeD [where stop = stop, OF this assms(1)] obtain pre where
    "file_lines f = pre @ l # file_lines inp" "stop l" by blast
  with assms(2) show ?thesis by auto
qed

lemma replace_in_xml_file_returns:
  assumes "\<forall>cur. read_param_in_xml_file parse f name PNone = Inr cur \<and> truthy cur \<longrightarrow>
             (\<exists>l\<in>set (file_lines f). sublist (''<name>'' @ name @ ''</name>'') l)"
    and "\<forall>cur. read_param_in_xml_file parse f name PNone = Inr cur \<and> \<not> truthy cur \<and> create_if_absent \<longrightarrow>
             (\<exists>l\<in>set (file_lines f). sublist ''</configuration>'' l)"
  shows "\<exists>r. replace_in_xml_file parse f name val create_if_absent replace_if_present = Some r"
proof (cases "read_param_in_xml_file parse f name PNone")
  case (Inl e)
  then show ?thesis by (simp add: replace_in_xml_file_def)
next
  case (Inr cur)
  show ?thesis
  proof (cases "truthy cur")
    case True
    with Inr assms(1) have "\<exists>l\<in>set (file_lines f). sublist (''<name>'' @ name @ ''</name>'') l"
      by blast
    from first_stop_line [OF this] obtain pre l post where
      d: "file_lines f = pre @ l # post" "\<forall>p\<in>set pre. \<not> sublist (''<name>'' @ name @ ''</name>'') p"
        "sublist (''<name>'' @ name @ ''</name>'') l" by blast
    from copy_until_lines [OF d, of "[]"]
    have cu: "copy_until (sublist (''<name>'' @ name @ ''</name>'')) (fst (readline f)) (snd (readline f)) []
       = Some (l, concat post, concat pre)" by simp
    show ?thesis
      using Inr True cu
      by (auto simp: replace_in_xml_file_def split: sum.splits)
  next
    case False
    show ?thesis
    proof (cases create_if_absent)
      case True
      with Inr False assms(2) have "\<exists>l\<in>set (file_lines f). sublist ''</configuration>'' l"
        by blast
      from first_stop_line [OF this] obtain pre l post where
        d: "file_lines f = pre @ l # post" "\<forall>p\<in>set pre. \<not> sublist ''</configuration>'' p"
          "sublist ''</configuration>'' l" by blast
      from copy_until_lines [OF d, of "[]"]
      have cu: "copy_until (sublist ''</configuration>'') (fst (readline f)) (snd (readline f)) []
         = Some (l, concat post, concat pre)" by simp
      show ?thesis
        using Inr False True cu by (simp add: replace_in_xml_file_def)
    next
      case F: False
      with Inr False show ?thesis by (simp add: replace_in_xml_file_def)
    qed
  qed
qed


text \<open>C5. \<^verbatim>\<open>replace_in_xml_file\<close> returns (a result or an exception) when, the key being
  present, some line of the file contains \<^verbatim>\<open><name>NAME</name>\<close>, and, the key being absent
  and \<^verbatim>\<open>create_if_absent\<close> true, some line contains \<^verbatim>\<open></configuration>\<close>. Without that line
  the search loop reads past the end of the file and the call does not return: for a key
  that is present and is to be replaced when no line contains the name tag, and for a key
  that is absent and is to be created when no line contains the closing tag.\<close>

theorem replace_in_xml_file_terminates:
  "((\<forall>cur. read_param_in_xml_file parse f name PNone = Inr cur \<and> truthy cur \<longrightarrow>
       (\<exists>l\<in>set (file_lines f). sublist (''<name>'' @ name @ ''</name>'') l)) \<and>
    (\<forall>cur. read_param_in_xml_file parse f name PNone = Inr cur \<and> \<not> truthy cur \<and> create_if_absent \<longrightarrow>
       (\<exists>l\<in>set (file_lines f). sublist ''</configuration>'' l)) \<longrightarrow>
    (\<exists>r. replace_in_xml_file parse f name val create_if_absent replace_if_present = Some r)) \<and>
   (read_param_in_xml_file parse f name PNone = Inr cur \<and> truthy cur \<and>
    (\<forall>l\<in>set (file_lines f). \<not> sublist (''<name>'' @ name @ ''</name>'') l) \<longrightarrow>
      replace_in_xml_file parse f name val create_if_absent True = None) \<and>
   (read_param_in_xml_file parse f name PNone = Inr cur \<and> \<not> truthy cur \<and>
    (\<forall>l\<in>set (file_lines f). \<not> sublist ''</configuration>'' l) \<longrightarrow>
      replace_in_xml_file parse f name val True replace_if_present = None)"
proof (intro conjI impI)
  assume "(\<forall>cur. read_param_in_xml_file parse f name PNone = Inr cur \<and> truthy cur \<longrightarrow>
       (\<exists>l\<in>set (file_lines f). sublist (''<name>'' @ name @ ''</name>'') l)) \<and>
    (\<forall>cur. read_param_in_xml_file parse f name PNone = Inr cur \<and> \<not> truthy cur \<and> create_if_absent \<longrightarrow>
       (\<exists>l\<in>set (file_lines f). sublist ''</configuration>'' l))"
  then show "\<exists>r. replace_in_xml_file parse f name val create_if_absent replace_if_present = Some r"
    using replace_in_xml_file_returns [of parse f name create_if_absent val replace_if_present]
    by blast
next
  assume a: "read_param_in_xml_file parse f name PNone = Inr cur \<and> truthy cur \<and>
    (\<forall>l\<in>set (file_lines f). \<not> sublist (''<name>'' @ name @ ''</name>'') l)"
  have "\<not> sublist (''<name>'' @ name @ ''</name>'') []" by simp
  with copy_until_None [where stop = "sublist (''<name>'' @ name @ ''</name>'')" and f = f and out = "[]"] a
  have "copy_until (sublist (''<name>'' @ name @ ''</name>'')) (fst (readline f)) (snd (readline f)) []
          = None" by blast
  with a show "replace_in_xml_file parse f name val create_if_absent True = None"
    by (simp add: replace_in_xml_file_def)
next
  assume a: "read_param_in_xml_file parse f name PNone = Inr cur \<and> \<not> truthy cur \<and>
    (\<forall>l\<in>set (file_lines f). \<not> sublist ''</configuration>'' l)"
  have "\<not> sublist ''</configuration>'' []" by simp
  with copy_until_None [where stop = "sublist ''</configuration>''" and f = f and out = "[]"] a
  have "copy_until (sublist ''</configuration>'') (fst (readline f)) (snd (readline f)) [] = None"
    by blast
  with a show "replace_in_xml_file parse f name val True replace_if_present = None"
    by (simp add: replace_in_xml_file_def)
qed

theorem replace_in_xml_file_terminates_witness:
  "read_param_in_xml_file xml_parse
      (''<configuration>'' @ [NL] @ ''  <property><name>x</name><value>1</value></property>'' @ [NL]
         @ ''</configuration>'') ''x'' PNone = Inr (PStr ''1'') \<and>
   (\<exists>l\<in>set (file_lines (''<configuration>'' @ [NL] @ ''  <property><name>x</name><value>1</value></property>'' @ [NL]
         @ ''</configuration>'')). sublist (''<name>'' @ ''x'' @ ''</name>'') l) \<and>
   (\<exists>r. replace_in_xml_file xml_parse
      (''<configuration>'' @ [NL] @ ''  <property><name>x</name><value>1</value></property>'' @ [NL]
         @ ''</configuration>'') ''x'' (PStr ''2'') False True = Some r) \<and>
   read_param_in_xml_file xml_parse
      (''<configuration>'' @ [NL] @ ''<property><name><b></b>x</name><value>1</value></property>'' @ [NL]
         @ ''</configuration>'') ''x'' PNone = Inr (PStr ''1'') \<and>
   replace_in_xml_file xml_parse
      (''<configuration>'' @ [NL] @ ''<property><name><b></b>x</name><value>1</value></property>'' @ [NL]
         @ ''</configuration>'') ''x'' (PStr ''2'') False True = None \<and>
   read_param_in_xml_file xml_parse (''<conf>'' @ [NL] @ ''</conf>'') ''x'' PNone = Inr PNone \<and>
   replace_in_xml_file xml_parse (''<conf>'' @ [NL] @ ''</conf>'') ''x'' (PStr ''2'') True True = None"
proof -
  let ?f = "''<configuration>'' @ [NL] @ ''  <property><name>x</name><value>1</value></property>'' @ [NL]
         @ ''</configuration>''"
  let ?g = "''<configuration>'' @ [NL] @ ''<property><name><b></b>x</name><value>1</value></property>'' @ [NL]
         @ ''</configuration>''"
  let ?h = "''<conf>'' @ [NL] @ ''</conf>''"
  have x: "read_param_in_xml_file xml_parse ?f ''x'' PNone = Inr (PStr ''1'')"
    by (simp add: xml_eval)
  have l: "\<exists>l\<in>set (file_lines ?f). sublist (''<name>'' @ ''x'' @ ''</name>'') l"
    by (simp add: xml_eval)
  have h1: "\<forall>cur. read_param_in_xml_file xml_parse ?f ''x'' PNone = Inr cur \<and> truthy cur \<longrightarrow>
             (\<exists>l\<in>set (file_lines ?f). sublist (''<name>'' @ ''x'' @ ''</name>'') l)"
    using l by blast
  have h2: "\<forall>cur. read_param_in_xml_file xml_parse ?f ''x'' PNone = Inr cur \<and> \<not> truthy cur \<and> False \<longrightarrow>
             (\<exists>l\<in>set (file_lines ?f). sublist ''</configuration>'' l)"
    by blast
  from replace_in_xml_file_terminates [of xml_parse ?f "''x''" False "PStr ''2''" True] h1 h2
  have r: "\<exists>r. replace_in_xml_file xml_parse ?f ''x'' (PStr ''2'') False True = Some r"
    by blast
  have gx: "read_param_in_xml_file xml_parse ?g ''x'' PNone = Inr (PStr ''1'')"
    by (simp add: xml_eval)
  have gl: "\<forall>l\<in>set (file_lines ?g). \<not> sublist (''<name>'' @ ''x'' @ ''</name>'') l"
    by (simp add: xml_eval)
  have t: "truthy (PStr ''1'')" "\<not> truthy PNone" by simp_all
  from replace_in_xml_file_terminates [of xml_parse ?g "''x''" False "PStr ''2''" True "PStr ''1''"]
    gx gl t
  have gn: "replace_in_xml_file xml_parse ?g ''x'' (PStr ''2'') False True = None"
    by blast
  have hx: "read_param_in_xml_file xml_parse ?h ''x'' PNone = Inr PNone"
    by (simp add: xml_eval)
  have hl: "\<forall>l\<in>set (file_lines ?h). \<not> sublist ''</configuration>'' l"
    by (simp add: xml_eval)
  from replace_in_xml_file_terminates [of xml_parse ?h "''x''" True "PStr ''2''" True PNone]
    hx hl t
  have hn: "replace_in_xml_file xml_parse ?h ''x'' (PStr ''2'') True True = None"
    by blast
  from x l r gx gn hx hn show ?thesis by blast
qed

section \<open>Writes that are refused\<close>

text \<open>C6, as it is stated, fails: the key \<^verbatim>\<open>x\<close> is present in the file with an empty value,
  which the lookup returns as \<^verbatim>\<open>None\<close>; with \<^verbatim>\<open>replace_if_present\<close> false and \<^verbatim>\<open>create_if_absent\<close>
  true the call returns true and the file gets a second entry for \<^verbatim>\<open>x\<close>.\<close>

theorem replace_in_xml_file_not_replacing_creates:
  "sublist ''<name>x</name>''
     (''<configuration>'' @ [NL] @ ''  <property><name>x</name><value></value></property>'' @ [NL]
        @ ''</configuration>'') \<and>
   read_param_in_xml_file xml_parse
     (''<configuration>'' @ [NL] @ ''  <property><name>x</name><value></value></property>'' @ [NL]
        @ ''</configuration>'') ''x'' PNone = Inr PNone \<and>
   replace_in_xml_file xml_parse
     (''<configuration>'' @ [NL] @ ''  <property><name>x</name><value></value></property>'' @ [NL]
        @ ''</configuration>'') ''x'' (PStr ''1'') True False
     = Some (Inr (True, ''<configuration>'' @ [NL]
         @ ''  <property><name>x</name><value></value></property>'' @ [NL]
         @ ''  <property><name>x</name><value>1</value></property>'' @ [NL] @ ''</configuration>''))"
  by (simp add: xml_eval)

text \<open>C6, amended. Where the lookup finds a value for the key that is not empty (it returns
  a true value), \<^verbatim>\<open>replace_in_xml_file\<close> with \<^verbatim>\<open>replace_if_present\<close> false and
  \<^verbatim>\<open>write_in_props_file\<close> with \<^verbatim>\<open>override\<close> false return false and leave the content of the file
  as it was, whatever \<^verbatim>\<open>create_if_absent\<close> is. Where the lookup returns any value, also
  \<^verbatim>\<open>None\<close> for a key whose value is empty, they do so when \<^verbatim>\<open>create_if_absent\<close> is false.\<close>

theorem no_write_when_present_and_not_replacing:
  "(read_param_in_xml_file parse f name PNone = Inr cur \<and> truthy cur \<longrightarrow>
      replace_in_xml_file parse f name val create_if_absent False = Some (Inr (False, f))) \<and>
   (read_param_in_xml_file parse f name PNone = Inr cur \<longrightarrow>
      replace_in_xml_file parse f name val False False = Some (Inr (False, f))) \<and>
   (read_param_in_props_file g name PNone = Inr cur' \<and> truthy cur' \<longrightarrow>
      write_in_props_file g name val create_if_absent False = Some (Inr (False, g))) \<and>
   (read_param_in_props_file g name PNone = Inr cur' \<longrightarrow>
      write_in_props_file g name val False False = Some (Inr (False, g)))"
  by (simp add: replace_in_xml_file_def write_in_props_file_def)

theorem no_write_when_present_and_not_replacing_witness:
  "read_param_in_xml_file xml_parse
      (''<configuration>'' @ [NL] @ ''  <property><name>x</name><value>1</value></property>'' @ [NL]
         @ ''</configuration>'') ''x'' PNone = Inr (PStr ''1'') \<and>
   truthy (PStr ''1'') \<and>
   replace_in_xml_file xml_parse
      (''<configuration>'' @ [NL] @ ''  <property><name>x</name><value>1</value></property>'' @ [NL]
         @ ''</configuration>'') ''x'' (PStr ''2'') True False
     = Some (Inr (False, ''<configuration>'' @ [NL]
         @ ''  <property><name>x</name><value>1</value></property>'' @ [NL] @ ''</configuration>'')) \<and>
   read_param_in_xml_file xml_parse
      (''<configuration>'' @ [NL] @ ''  <property><name>x</name><value></value></property>'' @ [NL]
         @ ''</configuration>'') ''x'' PNone = Inr PNone \<and>
   replace_in_xml_file xml_parse
      (''<configuration>'' @ [NL] @ ''  <property><name>x</name><value></value></property>'' @ [NL]
         @ ''</configuration>'') ''x'' (PStr ''2'') False False
     = Some (Inr (False, ''<configuration>'' @ [NL]
         @ ''  <property><name>x</name><value></value></property>'' @ [NL] @ ''</configuration>'')) \<and>
   read_param_in_props_file (''a 1'' @ [NL] @ ''b 2'' @ [NL]) ''b'' PNone = Inr (PStr ''2'') \<and>
   truthy (PStr ''2'') \<and>
   write_in_props_file (''a 1'' @ [NL] @ ''b 2'' @ [NL]) ''b'' (PStr ''3'') True False
     = Some (Inr (False, ''a 1'' @ [NL] @ ''b 2'' @ [NL])) \<and>
   write_in_props_file (''a 1'' @ [NL] @ ''b 2'' @ [NL]) ''b'' (PStr ''3'') False False
     = Some (Inr (False, ''a 1'' @ [NL] @ ''b 2'' @ [NL]))"
proof -
  let ?f = "''<configuration>'' @ [NL] @ ''  <property><name>x</name><value>1</value></property>'' @ [NL]
         @ ''</configuration>''"
  let ?e = "''<configuration>'' @ [NL] @ ''  <property><name>x</name><value></value></property>'' @ [NL]
         @ ''</configuration>''"
  let ?g = "''a 1'' @ [NL] @ ''b 2'' @ [NL]"
  have x: "read_param_in_xml_file xml_parse ?f ''x'' PNone = Inr (PStr ''1'')"
    by (simp add: xml_eval)
  have e: "read_param_in_xml_file xml_parse ?e ''x'' PNone = Inr PNone"
    by (simp add: xml_eval)
  have p: "read_param_in_props_file ?g ''b'' PNone = Inr (PStr ''2'')"
    by (simp add: flat_eval)
  from no_write_when_present_and_not_replacing [of xml_parse ?f "''x''" "PStr ''1''" "PStr ''2''" True
      ?g "PStr ''2''"] x
  have 1: "replace_in_xml_file xml_parse ?f ''x'' (PStr ''2'') True False = Some (Inr (False, ?f))"
    by simp
  from no_write_when_present_and_not_replacing [of xml_parse ?e "''x''" PNone "PStr ''2''" True
      ?g "PStr ''2''"] e
  have 2: "replace_in_xml_file xml_parse ?e ''x'' (PStr ''2'') False False = Some (Inr (False, ?e))"
    by simp
  from no_write_when_present_and_not_replacing [of xml_parse ?f "''b''" PNone "PStr ''3''" True
      ?g "PStr ''2''"] p
  have 3: "write_in_props_file ?g ''b'' (PStr ''3'') True False = Some (Inr (False, ?g))"
    and 4: "write_in_props_file ?g ''b'' (PStr ''3'') False False = Some (Inr (False, ?g))"
    by simp_all
  from x e p 1 2 3 4 show ?thesis by simp
qed

section \<open>The parser around the closing tag\<close>

lemma foldl_step_PErr [simp]: "foldl step (PErr e) s = PErr e"
  by (induction s) simp_all

lemma xml_space_plain: "xml_space c \<Longrightarrow> plain c"
  by (auto simp: xml_space_def plain_def)

lemma spaces_plain: "list_all xml_space s \<Longrightarrow> list_all plain s"
  by (induction s) (auto simp: xml_space_plain)

lemma foldl_step_closing_tag:
  "foldl step (PS st dn (InTag [])) ''/configuration>'' = end_of_tag st dn ''/configuration''"
  by (simp add: tag_eval)

lemma step_in_tag_fails:
  assumes "xml_space c \<or> c = CHR ''<''"
  shows "step (PS st dn (InTag b)) c = PErr OutsideModel"
  using assms by (auto simp: xml_space_def tag_eval)

text \<open>A run of the parser that ends well, and whose last input is blanks, the closing tag
  of the root and whitespace, was before them in the text of the one open element, the
  root; its result is that element, closed.\<close>

lemma closing_tag_inversion:
  assumes "finish (foldl step S (ws @ ''</configuration>'' @ trail)) = Inr root"
    and "list_all xml_space ws" and "list_all xml_space trail"
  shows "\<exists>fr dn buf. S = PS [fr] dn (InText buf) \<and> fst fr = ''configuration'' \<and>
           root = close_frame (if buf @ ws = [] then fr else after_text fr (buf @ ws))"
proof (cases S)
  case (PErr e)
  with assms(1) show ?thesis by simp
next
  case (PS st dn m)
  show ?thesis
  proof (cases m)
    case (InTag b)
    obtain c cs where c: "ws @ ''</configuration>'' @ trail = c # cs" "xml_space c \<or> c = CHR ''<''"
      using assms(2) by (cases ws) auto
    from step_in_tag_fails [OF c(2)] PS InTag c(1)
    have "foldl step S (ws @ ''</configuration>'' @ trail) = PErr OutsideModel" by simp
    with assms(1) show ?thesis by simp
  next
    case (InText buf)
    have ws: "foldl step S ws = PS st dn (InText (buf @ ws))"
      using PS InText foldl_step_plain [OF spaces_plain [OF assms(2)]] by simp
    have one: "foldl step X [c] = step X c" for X c by simp
    have sp: "ws @ ''</configuration>'' @ trail = ws @ [CHR ''<''] @ ''/configuration>'' @ trail"
      by simp
    have run: "foldl step S (ws @ ''</configuration>'' @ trail)
      = foldl step (foldl step (step (PS st dn (InText (buf @ ws))) CHR ''<'') ''/configuration>'') trail"
      unfolding sp by (simp only: foldl_append ws one)
    show ?thesis
    proof (cases "flush st (buf @ ws)")
      case (Inl e)
      then have "step (PS st dn (InText (buf @ ws))) CHR ''<'' = PErr e" by simp
      with run have "foldl step S (ws @ ''</configuration>'' @ trail) = PErr e"
        by (simp only: foldl_step_PErr)
      with assms(1) show ?thesis by simp
    next
      case (Inr st')
      then have "step (PS st dn (InText (buf @ ws))) CHR ''<'' = PS st' dn (InTag [])" by simp
      with run have run': "foldl step S (ws @ ''</configuration>'' @ trail)
          = foldl step (end_of_tag st' dn ''/configuration'') trail"
        by (simp only: foldl_step_closing_tag)
      show ?thesis
      proof (cases st)
        case Nil
        with Inr have "st' = []" by (cases "buf @ ws") (auto split: if_splits)
        with run' assms(1) show ?thesis by (simp add: tag_eval)
      next
        case (Cons fr rest)
        let ?fr = "if buf @ ws = [] then fr else after_text fr (buf @ ws)"
        have st': "st' = ?fr # rest"
        proof (cases "buf @ ws = []")
          case True
          with Cons Inr show ?thesis by simp
        next
          case False
          from flush_frame [OF False, of fr rest] Cons Inr False show ?thesis by auto
        qed
        obtain tag tx kids where fr': "?fr = (tag, tx, kids)" by (cases ?fr)
        have tag: "tag = fst fr"
          using fr' by (cases "buf @ ws = []") (auto simp: after_text_def split: prod.splits if_splits)
        have vn: "valid_name ''configuration''" by (simp add: tag_eval)
        show ?thesis
        proof (cases "tag = ''configuration''")
          case False
          with run' st' fr' vn assms(1) show ?thesis by simp
        next
          case True
          show ?thesis
          proof (cases rest)
            case Nil
            with run' st' fr' vn True
            have "foldl step S (ws @ ''</configuration>'' @ trail)
                = PS [] (Some (Element tag tx kids None)) (InText trail)"
              by (simp add: foldl_step_plain [OF spaces_plain [OF assms(3)]])
            with assms(1,3) have "root = Element tag tx kids None" by simp
            with fr' have "root = close_frame ?fr" by (simp add: close_frame_def)
            with PS InText Cons Nil tag True show ?thesis by auto
          next
            case (Cons pf rest')
            obtain ptag ptx pkids where "pf = (ptag, ptx, pkids)" by (cases pf)
            with run' st' fr' vn True Cons
            have "foldl step S (ws @ ''</configuration>'' @ trail)
                = PS ((ptag, ptx, pkids @ [Element tag tx kids None]) # rest') dn (InText trail)"
              by (simp add: foldl_step_plain [OF spaces_plain [OF assms(3)]])
            with assms(1) show ?thesis by simp
          qed
        qed
      qed
    qed
  qed
qed

text \<open>An inserted line read in the text of an open element, whatever text came before
  it: the element gets the entry as its last child.\<close>

lemma foldl_step_entry_any:
  assumes "plain_text (fst e)" and "plain_text (snd e)"
  shows "\<exists>tx kids. foldl step (PS (fr # st) dn (InText buf)) (render_entry e)
             = PS ((fst fr, tx, kids) # st) dn (InText [NL]) \<and>
           map kid_core kids = map kid_core (snd (snd fr)) @ [entry_elem e]"
proof -
  obtain n v where e: "e = (n, v)" by (cases e)
  from assms e have n: "n \<noteq> []" "list_all plain n" and v: "v \<noteq> []" "list_all plain v"
    by (simp_all add: plain_text_def)
  obtain tag tx kids where fr: "after_text fr (buf @ ''  '') = (tag, tx, kids)"
    by (cases "after_text fr (buf @ ''  '')")
  have "fst (after_text fr (buf @ ''  '')) = fst fr" by simp
  with fr have tag: "tag = fst fr" by simp
  from kids_after_text [of fr "buf @ ''  ''"] fr
  have kids: "map kid_core kids = map kid_core (snd (snd fr))" by simp
  have ne: "buf @ ''  '' \<noteq> []" by simp
  have 0: "foldl step (PS (fr # st) dn (InText buf)) ''  '' = PS (fr # st) dn (InText (buf @ ''  ''))"
    by (rule foldl_step_plain) (simp add: plain_def)
  have 1: "foldl step (PS (fr # st) dn (InText (buf @ ''  ''))) ''<property><name>''
         = PS ((''name'', None, []) # (''property'', None, []) # (tag, tx, kids) # st) dn (InText [])"
    using flush_frame [OF ne, of fr st] fr by (simp add: tag_eval)
  have 2: "foldl step (PS ((''name'', None, []) # (''property'', None, []) # (tag, tx, kids) # st) dn (InText []))
             (n @ ''</name><value>'')
         = PS ((''value'', None, []) # (''property'', None, [Element ''name'' (Some n) [] None]) # (tag, tx, kids) # st) dn (InText [])"
    using n by (simp add: foldl_step_plain flush_frame after_text_def tag_eval)
  have 3: "foldl step (PS ((''value'', None, []) # (''property'', None, [Element ''name'' (Some n) [] None]) # (tag, tx, kids) # st) dn (InText []))
             (v @ ''</value></property>'' @ [NL])
         = PS ((tag, tx, kids @ [entry_elem (n, v)]) # st) dn (InText [NL])"
    using v by (simp add: foldl_step_plain flush_frame after_text_def tag_eval entry_elem_def)
  have r: "render_entry (n, v) = ''  '' @ ''<property><name>'' @ (n @ ''</name><value>'') @ (v @ ''</value></property>'' @ [NL])"
    by (simp add: render_entry_def)
  have "foldl step (PS (fr # st) dn (InText buf))
          (''  '' @ ''<property><name>'' @ (n @ ''</name><value>'') @ (v @ ''</value></property>'' @ [NL]))
        = foldl step (foldl step (foldl step (foldl step (PS (fr # st) dn (InText buf)) ''  '')
            ''<property><name>'') (n @ ''</name><value>'')) (v @ ''</value></property>'' @ [NL])"
    by (simp only: foldl_append)
  also have "\<dots> = PS ((tag, tx, kids @ [entry_elem (n, v)]) # st) dn (InText [NL])"
    by (simp only: 0 1 2 3)
  finally have "foldl step (PS (fr # st) dn (InText buf)) (render_entry e)
        = PS ((fst fr, tx, kids @ [entry_elem e]) # st) dn (InText [NL])"
    by (simp only: r tag e)
  moreover have "map kid_core (kids @ [entry_elem e]) = map kid_core (snd (snd fr)) @ [entry_elem e]"
    using kids by simp
  ultimately show ?thesis by blast
qed

text \<open>Blanks, the closing tag of the root and whitespace, read in the text of the root
  element after a newline: the root element, closed.\<close>

lemma foldl_step_closing:
  assumes "fst fr = ''configuration''" and "list_all xml_space ws" and "list_all xml_space t"
  shows "finish (foldl step (PS [fr] dn (InText [NL])) (ws @ ''</configuration>'' @ t))
           = Inr (close_frame (after_text fr (NL # ws)))"
proof -
  obtain tag tx kids where fr': "after_text fr (NL # ws) = (tag, tx, kids)"
    by (cases "after_text fr (NL # ws)")
  have "fst (after_text fr (NL # ws)) = fst fr" by simp
  with fr' assms(1) have tag: "tag = ''configuration''" by simp
  have one: "foldl step X [c] = step X c" for X c by simp
  have sp: "ws @ ''</configuration>'' @ t = ws @ [CHR ''<''] @ ''/configuration>'' @ t" by simp
  have ws: "foldl step (PS [fr] dn (InText [NL])) ws = PS [fr] dn (InText ([NL] @ ws))"
    by (rule foldl_step_plain [OF spaces_plain [OF assms(2)]])
  have lt: "step (PS [fr] dn (InText ([NL] @ ws))) CHR ''<'' = PS [(tag, tx, kids)] dn (InTag [])"
    using flush_frame [of "NL # ws" fr "[]"] fr' by simp
  have cl: "end_of_tag [(tag, tx, kids)] dn ''/configuration''
          = PS [] (Some (Element tag tx kids None)) (InText [])"
    using tag by (simp add: tag_eval)
  have "foldl step (PS [fr] dn (InText [NL])) (ws @ ''</configuration>'' @ t)
      = foldl step (foldl step (step (foldl step (PS [fr] dn (InText [NL])) ws) CHR ''<'')
          ''/configuration>'') t"
    unfolding sp by (simp only: foldl_append one)
  also have "\<dots> = foldl step (PS [] (Some (Element tag tx kids None)) (InText [])) t"
    by (simp only: ws lt foldl_step_closing_tag cl)
  also have "\<dots> = PS [] (Some (Element tag tx kids None)) (InText t)"
    using foldl_step_plain [OF spaces_plain [OF assms(3)], of "[]" "Some (Element tag tx kids None)" "[]"]
    by simp
  finally show ?thesis using assms(3) by (simp add: close_frame_def fr')
qed

lemma el_children_close_frame: "el_children (close_frame fr) = snd (snd fr)"
  by (cases fr) (simp add: close_frame_def)

text \<open>Inserting a line before the line of the closing tag of a document that the parser
  reads gives a document that the parser reads, with the entry as the last child of the
  root.\<close>

lemma xml_parse_insert_entry:
  assumes "xml_parse (body @ ws @ ''</configuration>'' @ trail) = Inr root"
    and "list_all xml_space ws" and "list_all xml_space trail" and "list_all xml_space t"
    and "plain_text (fst e)" and "plain_text (snd e)"
  shows "\<exists>root'. xml_parse (body @ render_entry e @ ws @ ''</configuration>'' @ t) = Inr root' \<and>
           map kid_core (el_children root') = map kid_core (el_children root) @ [entry_elem e]"
proof -
  let ?S = "foldl step (PS [] None (InText [])) body"
  from assms(1) have "finish (foldl step ?S (ws @ ''</configuration>'' @ trail)) = Inr root"
    by (simp only: xml_parse_def foldl_append)
  from closing_tag_inversion [OF this assms(2,3)] obtain fr dn buf where
    S: "?S = PS [fr] dn (InText buf)" and c: "fst fr = ''configuration''"
    and root: "root = close_frame (if buf @ ws = [] then fr else after_text fr (buf @ ws))"
    by blast
  from root have kr: "map kid_core (el_children root) = map kid_core (snd (snd fr))"
    by (simp add: el_children_close_frame kids_after_text)
  from foldl_step_entry_any [OF assms(5,6), of fr "[]" dn buf] obtain tx kids where
    en: "foldl step (PS [fr] dn (InText buf)) (render_entry e)
           = PS [(fst fr, tx, kids)] dn (InText [NL])"
    and kk: "map kid_core kids = map kid_core (snd (snd fr)) @ [entry_elem e]" by blast
  have "fst (fst fr, tx, kids) = ''configuration''" using c by simp
  from foldl_step_closing [OF this assms(2,4), of dn]
  have fin: "finish (foldl step (PS [(fst fr, tx, kids)] dn (InText [NL])) (ws @ ''</configuration>'' @ t))
           = Inr (close_frame (after_text (fst fr, tx, kids) (NL # ws)))" .
  have "xml_parse (body @ render_entry e @ ws @ ''</configuration>'' @ t)
      = finish (foldl step (foldl step ?S (render_entry e)) (ws @ ''</configuration>'' @ t))"
    by (simp only: xml_parse_def foldl_append)
  also have "\<dots> = Inr (close_frame (after_text (fst fr, tx, kids) (NL # ws)))"
    by (simp only: S en fin)
  finally have p: "xml_parse (body @ render_entry e @ ws @ ''</configuration>'' @ t)
      = Inr (close_frame (after_text (fst fr, tx, kids) (NL # ws)))" .
  have "map kid_core (el_children (close_frame (after_text (fst fr, tx, kids) (NL # ws))))
      = map kid_core (el_children root) @ [entry_elem e]"
    using kids_after_text [of "(fst fr, tx, kids)" "NL # ws"] kk kr
    by (simp add: el_children_close_frame)
  with p show ?thesis by blast
qed

section \<open>The creating write of the XML store on the documents the parser reads\<close>

lemma readline_no_newline:
  "NL \<notin> set a \<Longrightarrow> readline (a @ t) = (a @ fst (readline t), snd (readline t))"
  by (induction a) (auto split: prod.splits)

lemma list_all_readline: "list_all P s \<Longrightarrow> list_all P (fst (readline s))"
proof -
  assume "list_all P s"
  moreover have "s = fst (readline s) @ snd (readline s)" by (simp add: readline_append)
  ultimately have "list_all P (fst (readline s) @ snd (readline s))" by simp
  then show ?thesis by (simp only: list_all_append)
qed

text \<open>The creating write inserts its line before the line of the first closing tag of the
  root and ends the file with that line.\<close>

lemma replace_in_xml_file_create_before_closing_tag:
  assumes "read_param_in_xml_file parse (body @ ws @ ''</configuration>'' @ trail) k PNone = Inr cur"
    and "\<not> truthy cur"
    and "body = [] \<or> last body = NL" and "\<not> sublist ''</configuration>'' body"
    and "NL \<notin> set ws"
  shows "replace_in_xml_file parse (body @ ws @ ''</configuration>'' @ trail) k val True replace_if_present
           = Some (Inr (True, body @ render_entry (k, py_str val) @ ws @ ''</configuration>''
                @ fst (readline trail)))"
proof -
  let ?f = "body @ ws @ ''</configuration>'' @ trail"
  let ?l = "ws @ ''</configuration>'' @ fst (readline trail)"
  have nl: "NL \<notin> set (ws @ ''</configuration>'')" using assms(5) by simp
  have rl: "readline ((ws @ ''</configuration>'') @ trail)
          = ((ws @ ''</configuration>'') @ fst (readline trail), snd (readline trail))"
    by (rule readline_no_newline [OF nl])
  have "ws @ ''</configuration>'' @ trail \<noteq> []" by simp
  from file_lines_Cons [OF this] rl
  have tl: "file_lines (ws @ ''</configuration>'' @ trail) = ?l # file_lines (snd (readline trail))"
    by simp
  have fl: "file_lines ?f = file_lines body @ ?l # file_lines (snd (readline trail))"
    using file_lines_append [OF assms(3), of "ws @ ''</configuration>'' @ trail"] tl by (simp only:)
  have np: "\<forall>p\<in>set (file_lines body). \<not> sublist ''</configuration>'' p"
    using sublist_in_line assms(4) by blast
  have st: "sublist ''</configuration>'' ?l"
    by (rule sublist_appendI)
  from copy_until_lines [OF fl np st, of "[]"]
  have cu: "copy_until (sublist ''</configuration>'') (fst (readline ?f)) (snd (readline ?f)) []
              = Some (?l, concat (file_lines (snd (readline trail))), body)"
    by simp
  from assms(1,2) cu show ?thesis
    by (simp add: replace_in_xml_file_def) (simp add: render_entry_def)
qed

text \<open>Reading a name in a document whose root got an entry with that name as its last
  child, when the root had no value for the name before.\<close>

lemma read_param_after_insert:
  assumes "xml_parse f' = Inr root'"
    and "map kid_core (el_children root') = map kid_core (el_children root) @ [entry_elem (k, v)]"
    and "findall_values root k = Inr []"
  shows "read_param_in_xml_file xml_parse f' k dflt = Inr (PStr v)"
proof -
  from assms(3) have q: "CHR 0x27 \<notin> set k"
    by (auto simp: findall_values_def split: if_splits)
  from assms(3) findall_values_entries [OF q, of root]
  have old: "concat (map entry_values (filter (is_entry k) (el_children root))) = []" by simp
  have "concat (map entry_values (filter (is_entry k) (el_children root')))
      = concat (map entry_values (filter (is_entry k) (map kid_core (el_children root'))))"
    by (simp only: values_kid_core)
  also have "\<dots> = concat (map entry_values (filter (is_entry k) (map kid_core (el_children root))))
            @ [Element ''value'' (Some v) [] None]"
    by (simp add: assms(2))
  also have "\<dots> = [Element ''value'' (Some v) [] None]"
    by (simp only: values_kid_core old) simp
  finally have "findall_values root' k = Inr [Element ''value'' (Some v) [] None]"
    by (simp add: findall_values_entries [OF q])
  with assms(1) show ?thesis by (simp add: read_param_in_xml_file_def py_text_def)
qed

section \<open>Writing, then reading\<close>

text \<open>C7, as it is stated, fails, in both stores. In the XML store, in the document of
  \<^verbatim>\<open>create_xml_file\<close>, which has no entry: the integer 7 written for \<^verbatim>\<open>k\<close> is read back as
  the string \<^verbatim>\<open>7\<close>, and the empty string written for \<^verbatim>\<open>k\<close> is read back as None. In a
  document whose closing tag \<^verbatim>\<open></configuration>\<close> is on the line of the closing tag of a
  property, the entry written for the absent name \<^verbatim>\<open>k\<close> lands inside that property and the
  name is read back as None. In the flat store: the value \<^verbatim>\<open> v\<close>, with a blank in front,
  written for \<^verbatim>\<open>k\<close> in the empty file is read back as \<^verbatim>\<open>v\<close>; and in the file \<^verbatim>\<open>#c\<close>, which
  does not end with a newline, the entry written for \<^verbatim>\<open>k\<close> continues the comment and the
  key is read back as None.\<close>

theorem write_then_read_returns_other_value:
  "replace_in_xml_file xml_parse create_xml_file ''k'' (PInt 7) True True
     = Some (Inr (True, ''<configuration>'' @ [NL]
         @ ''  <property><name>k</name><value>7</value></property>'' @ [NL]
         @ ''</configuration>'')) \<and>
   read_param_in_xml_file xml_parse
     (''<configuration>'' @ [NL]
         @ ''  <property><name>k</name><value>7</value></property>'' @ [NL]
         @ ''</configuration>'') ''k'' PNone = Inr (PStr ''7'') \<and>
   replace_in_xml_file xml_parse create_xml_file ''k'' (PStr []) True True
     = Some (Inr (True, ''<configuration>'' @ [NL]
         @ ''  <property><name>k</name><value></value></property>'' @ [NL]
         @ ''</configuration>'')) \<and>
   read_param_in_xml_file xml_parse
     (''<configuration>'' @ [NL]
         @ ''  <property><name>k</name><value></value></property>'' @ [NL]
         @ ''</configuration>'') ''k'' PNone = Inr PNone \<and>
   read_param_in_xml_file xml_parse
     (''<configuration>'' @ [NL] @ ''<property><name>a</name><value>1</value>'' @ [NL]
         @ ''</property></configuration>'') ''k'' PNone = Inr PNone \<and>
   replace_in_xml_file xml_parse
     (''<configuration>'' @ [NL] @ ''<property><name>a</name><value>1</value>'' @ [NL]
         @ ''</property></configuration>'') ''k'' (PStr ''v'') True True
     = Some (Inr (True, ''<configuration>'' @ [NL]
         @ ''<property><name>a</name><value>1</value>'' @ [NL]
         @ ''  <property><name>k</name><value>v</value></property>'' @ [NL]
         @ ''</property></configuration>'')) \<and>
   read_param_in_xml_file xml_parse
     (''<configuration>'' @ [NL]
         @ ''<property><name>a</name><value>1</value>'' @ [NL]
         @ ''  <property><name>k</name><value>v</value></property>'' @ [NL]
         @ ''</property></configuration>'') ''k'' PNone = Inr PNone \<and>
   write_in_props_file [] ''k'' (PStr '' v'') True True
     = Some (Inr (True, ''k'' @ [TAB] @ '' v'' @ [NL])) \<and>
   read_param_in_props_file (''k'' @ [TAB] @ '' v'' @ [NL]) ''k'' PNone = Inr (PStr ''v'') \<and>
   read_param_in_props_file ''#c'' ''k'' PNone = Inr PNone \<and>
   write_in_props_file ''#c'' ''k'' (PStr ''v'') True True
     = Some (Inr (True, ''#ck'' @ [TAB] @ ''v'' @ [NL])) \<and>
   read_param_in_props_file (''#ck'' @ [TAB] @ ''v'' @ [NL]) ''k'' PNone = Inr PNone"
proof (intro conjI)
  show "replace_in_xml_file xml_parse create_xml_file ''k'' (PInt 7) True True
     = Some (Inr (True, ''<configuration>'' @ [NL]
         @ ''  <property><name>k</name><value>7</value></property>'' @ [NL]
         @ ''</configuration>''))"
    by (simp add: xml_eval)
  show "read_param_in_xml_file xml_parse
     (''<configuration>'' @ [NL]
         @ ''  <property><name>k</name><value>7</value></property>'' @ [NL]
         @ ''</configuration>'') ''k'' PNone = Inr (PStr ''7'')"
    by (simp add: xml_eval)
  show "replace_in_xml_file xml_parse create_xml_file ''k'' (PStr []) True True
     = Some (Inr (True, ''<configuration>'' @ [NL]
         @ ''  <property><name>k</name><value></value></property>'' @ [NL]
         @ ''</configuration>''))"
    by (simp add: xml_eval)
  show "read_param_in_xml_file xml_parse
     (''<configuration>'' @ [NL]
         @ ''  <property><name>k</name><value></value></property>'' @ [NL]
         @ ''</configuration>'') ''k'' PNone = Inr PNone"
    by (simp add: xml_eval)
  show "read_param_in_xml_file xml_parse
     (''<configuration>'' @ [NL] @ ''<property><name>a</name><value>1</value>'' @ [NL]
         @ ''</property></configuration>'') ''k'' PNone = Inr PNone"
    by (simp add: xml_eval)
  show "replace_in_xml_file xml_parse
     (''<configuration>'' @ [NL] @ ''<property><name>a</name><value>1</value>'' @ [NL]
         @ ''</property></configuration>'') ''k'' (PStr ''v'') True True
     = Some (Inr (True, ''<configuration>'' @ [NL]
         @ ''<property><name>a</name><value>1</value>'' @ [NL]
         @ ''  <property><name>k</name><value>v</value></property>'' @ [NL]
         @ ''</property></configuration>''))"
    by (simp add: xml_eval)
  show "read_param_in_xml_file xml_parse
     (''<configuration>'' @ [NL]
         @ ''<property><name>a</name><value>1</value>'' @ [NL]
         @ ''  <property><name>k</name><value>v</value></property>'' @ [NL]
         @ ''</property></configuration>'') ''k'' PNone = Inr PNone"
    by (simp add: xml_eval)
  show "write_in_props_file [] ''k'' (PStr '' v'') True True
     = Some (Inr (True, ''k'' @ [TAB] @ '' v'' @ [NL]))"
    by (simp add: flat_eval)
  show "read_param_in_props_file (''k'' @ [TAB] @ '' v'' @ [NL]) ''k'' PNone = Inr (PStr ''v'')"
    by (simp add: flat_eval)
  show "read_param_in_props_file ''#c'' ''k'' PNone = Inr PNone"
    by (simp add: flat_eval)
  show "write_in_props_file ''#c'' ''k'' (PStr ''v'') True True
     = Some (Inr (True, ''#ck'' @ [TAB] @ ''v'' @ [NL]))"
    by (simp add: flat_eval)
  show "read_param_in_props_file (''#ck'' @ [TAB] @ ''v'' @ [NL]) ''k'' PNone = Inr PNone"
    by (simp add: flat_eval)
qed

text \<open>C7, amended. XML store: take a document that the parser reads, in which the path of
  the readers selects no value for the name, whose first closing tag \<^verbatim>\<open></configuration>\<close>
  stands on a line after blanks only, the text before that line ending with a newline,
  and is followed by whitespace only. Writing a value for the name with
  \<^verbatim>\<open>create_if_absent\<close> true returns true and inserts the line of the entry before the line
  of the closing tag, and reading the name in the new document returns the string of the
  value, when the name and that string are plain text. Flat store: in a file that is
  empty or ends with a newline, whose lines unpack and do not have the key, writing and
  reading back returns the string of the value, when the key and that string are tokens
  and the key does not start with \<^verbatim>\<open>#\<close>.\<close>

theorem write_then_read:
  "(xml_parse (body @ ws @ ''</configuration>'' @ trail) = Inr root \<and>
    findall_values root k = Inr [] \<and>
    last body = NL \<and> \<not> sublist ''</configuration>'' body \<and>
    list_all xml_space ws \<and> NL \<notin> set ws \<and> list_all xml_space trail \<and>
    plain_text k \<and> plain_text (py_str val) \<longrightarrow>
      replace_in_xml_file xml_parse (body @ ws @ ''</configuration>'' @ trail) k val True
          replace_if_present
        = Some (Inr (True, body @ render_entry (k, py_str val) @ ws @ ''</configuration>''
            @ fst (readline trail))) \<and>
      read_param_in_xml_file xml_parse
          (body @ render_entry (k, py_str val) @ ws @ ''</configuration>'' @ fst (readline trail))
          k dflt
        = Inr (PStr (py_str val))) \<and>
   ((g = [] \<or> last g = NL) \<and> (\<forall>l\<in>set (file_lines g). unpacks l \<and> line_key l \<noteq> PStr k) \<and>
    token k \<and> \<not> prefix ''#'' k \<and> token (py_str val) \<longrightarrow>
      write_in_props_file g k val True override
        = Some (Inr (True, g @ k @ [TAB] @ py_str val @ [NL])) \<and>
      read_param_in_props_file (g @ k @ [TAB] @ py_str val @ [NL]) k dflt
        = Inr (PStr (py_str val)))"
proof (intro conjI impI)
  assume a: "xml_parse (body @ ws @ ''</configuration>'' @ trail) = Inr root \<and>
    findall_values root k = Inr [] \<and>
    last body = NL \<and> \<not> sublist ''</configuration>'' body \<and>
    list_all xml_space ws \<and> NL \<notin> set ws \<and> list_all xml_space trail \<and>
    plain_text k \<and> plain_text (py_str val)"
  then have p: "xml_parse (body @ ws @ ''</configuration>'' @ trail) = Inr root"
    and fv: "findall_values root k = Inr []"
    and b: "body = [] \<or> last body = NL" "\<not> sublist ''</configuration>'' body"
    and ws: "list_all xml_space ws" "NL \<notin> set ws" and tr: "list_all xml_space trail"
    and k: "plain_text (fst (k, py_str val))" and v: "plain_text (snd (k, py_str val))"
    by simp_all
  from p fv
  have r: "read_param_in_xml_file xml_parse (body @ ws @ ''</configuration>'' @ trail) k PNone
             = Inr PNone"
    by (simp add: read_param_in_xml_file_def)
  show "replace_in_xml_file xml_parse (body @ ws @ ''</configuration>'' @ trail) k val True
          replace_if_present
        = Some (Inr (True, body @ render_entry (k, py_str val) @ ws @ ''</configuration>''
            @ fst (readline trail)))"
    by (rule replace_in_xml_file_create_before_closing_tag [OF r _ b ws(2)]) simp
  from xml_parse_insert_entry [OF p ws(1) tr list_all_readline [OF tr] k v]
  obtain root' where
    p': "xml_parse (body @ render_entry (k, py_str val) @ ws @ ''</configuration>''
           @ fst (readline trail)) = Inr root'"
    and c: "map kid_core (el_children root')
              = map kid_core (el_children root) @ [entry_elem (k, py_str val)]"
    by blast
  show "read_param_in_xml_file xml_parse
          (body @ render_entry (k, py_str val) @ ws @ ''</configuration>'' @ fst (readline trail))
          k dflt
        = Inr (PStr (py_str val))"
    by (rule read_param_after_insert [OF p' c fv])
next
  assume a: "(g = [] \<or> last g = NL) \<and> (\<forall>l\<in>set (file_lines g). unpacks l \<and> line_key l \<noteq> PStr k) \<and>
    token k \<and> \<not> prefix ''#'' k \<and> token (py_str val)"
  then have g: "g = [] \<or> last g = NL"
    and ls: "\<forall>l\<in>set (file_lines g). unpacks l \<and> line_key l \<noteq> PStr k"
    and k: "token k" "\<not> prefix ''#'' k" and v: "token (py_str val)" by simp_all
  from read_param_loop_first [OF ls, of "[]" PNone]
  have "read_param_in_props_file g k PNone = Inr PNone"
    by (simp add: read_param_in_props_file_def)
  then show "write_in_props_file g k val True override
        = Some (Inr (True, g @ k @ [TAB] @ py_str val @ [NL]))"
    by (simp add: write_in_props_file_def)
  from k(1) have "k \<noteq> []" by (simp add: token_def)
  with read_param_loop_first [OF ls, of "[k @ [TAB] @ py_str val @ [NL]]" dflt]
    parse_entry_line [OF k(1) v k(2)] file_lines_entry_line [OF k(1) v g]
  show "read_param_in_props_file (g @ k @ [TAB] @ py_str val @ [NL]) k dflt
        = Inr (PStr (py_str val))"
    by (simp add: read_param_in_props_file_def)
qed

theorem write_then_read_witness:
  "xml_parse (''<configuration>'' @ [NL] @ ''<property>'' @ [NL] @ ''<name>a</name>'' @ [NL]
       @ ''<value>1</value>'' @ [NL] @ ''</property>'' @ [NL] @ ''</configuration>'' @ [NL])
     = Inr (Element ''configuration'' (Some [NL])
         [Element ''property'' (Some [NL])
            [Element ''name'' (Some ''a'') [] (Some [NL]),
             Element ''value'' (Some ''1'') [] (Some [NL])] (Some [NL])] None) \<and>
   replace_in_xml_file xml_parse
     (''<configuration>'' @ [NL] @ ''<property>'' @ [NL] @ ''<name>a</name>'' @ [NL]
       @ ''<value>1</value>'' @ [NL] @ ''</property>'' @ [NL] @ ''</configuration>'' @ [NL])
     ''x'' (PInt 42) True True
     = Some (Inr (True, ''<configuration>'' @ [NL] @ ''<property>'' @ [NL] @ ''<name>a</name>'' @ [NL]
         @ ''<value>1</value>'' @ [NL] @ ''</property>'' @ [NL]
         @ ''  <property><name>x</name><value>42</value></property>'' @ [NL]
         @ ''</configuration>'' @ [NL])) \<and>
   read_param_in_xml_file xml_parse
     (''<configuration>'' @ [NL] @ ''<property>'' @ [NL] @ ''<name>a</name>'' @ [NL]
         @ ''<value>1</value>'' @ [NL] @ ''</property>'' @ [NL]
         @ ''  <property><name>x</name><value>42</value></property>'' @ [NL]
         @ ''</configuration>'' @ [NL]) ''x'' PNone = Inr (PStr ''42'') \<and>
   write_in_props_file (''a 1'' @ [NL]) ''x'' (PInt 42) True True
     = Some (Inr (True, ''a 1'' @ [NL] @ ''x'' @ [TAB] @ ''42'' @ [NL])) \<and>
   read_param_in_props_file (''a 1'' @ [NL] @ ''x'' @ [TAB] @ ''42'' @ [NL]) ''x'' PNone
     = Inr (PStr ''42'')"
proof -
  let ?body = "''<configuration>'' @ [NL] @ ''<property>'' @ [NL] @ ''<name>a</name>'' @ [NL]
       @ ''<value>1</value>'' @ [NL] @ ''</property>'' @ [NL]"
  let ?root = "Element ''configuration'' (Some [NL])
         [Element ''property'' (Some [NL])
            [Element ''name'' (Some ''a'') [] (Some [NL]),
             Element ''value'' (Some ''1'') [] (Some [NL])] (Some [NL])] None"
  have s: "py_str (PInt 42) = ''42''" by (simp add: digits.simps)
  have p: "xml_parse (?body @ [] @ ''</configuration>'' @ [NL]) = Inr ?root"
    by (simp add: xml_eval)
  have fv: "findall_values ?root ''x'' = Inr []"
    by (simp add: xml_eval)
  have b: "last ?body = NL \<and> \<not> sublist ''</configuration>'' ?body"
    by (simp add: sublist_code)
  have w: "list_all xml_space [] \<and> NL \<notin> set [] \<and> list_all xml_space [NL]"
    by (simp add: xml_space_def)
  have t: "plain_text ''x'' \<and> plain_text (py_str (PInt 42))"
    by (simp add: digits.simps plain_text_def plain_def)
  have hg: "(''a 1'' @ [NL] = [] \<or> last (''a 1'' @ [NL]) = NL) \<and>
      (\<forall>l\<in>set (file_lines (''a 1'' @ [NL])). unpacks l \<and> line_key l \<noteq> PStr ''x'') \<and>
      token ''x'' \<and> \<not> prefix ''#'' ''x'' \<and> token (py_str (PInt 42))"
    by (simp add: flat_eval token_def)
  from write_then_read [where body = ?body and ws = "[]" and trail = "[NL]" and root = ?root
      and k = "''x''" and val = "PInt 42" and replace_if_present = True and dflt = PNone
      and g = "''a 1'' @ [NL]" and override = True] p fv b w t hg
  have "replace_in_xml_file xml_parse (?body @ [] @ ''</configuration>'' @ [NL]) ''x'' (PInt 42) True True
        = Some (Inr (True, ?body @ render_entry (''x'', py_str (PInt 42)) @ [] @ ''</configuration>''
            @ fst (readline [NL]))) \<and>
      read_param_in_xml_file xml_parse
          (?body @ render_entry (''x'', py_str (PInt 42)) @ [] @ ''</configuration>'' @ fst (readline [NL]))
          ''x'' PNone
        = Inr (PStr (py_str (PInt 42))) \<and>
      write_in_props_file (''a 1'' @ [NL]) ''x'' (PInt 42) True True
        = Some (Inr (True, (''a 1'' @ [NL]) @ ''x'' @ [TAB] @ py_str (PInt 42) @ [NL])) \<and>
      read_param_in_props_file ((''a 1'' @ [NL]) @ ''x'' @ [TAB] @ py_str (PInt 42) @ [NL]) ''x'' PNone
        = Inr (PStr (py_str (PInt 42)))"
    by blast
  then show ?thesis unfolding s using p by (simp add: render_entry_def)
qed

end
